(* ===== verification/Prelude.thy ===== *)
theory Prelude
  imports Main "HOL-Library.Word" "HOL-Library.Sublist"
begin

text \<open>
  Shared vocabulary of the development. A Python \<open>str\<close> is a sequence of Unicode code
  points; the model keeps it as a list of natural numbers (\<open>pystr\<close>), so that every
  code point the UTF-8 decoder can produce is representable, the byte order mark
  U+FEFF included. Bytes read from and written to files are \<open>8 word\<close> values. File
  paths are Python strings as well. The theory also holds the generic list lemmas the
  component theories share and the named collections their proofs use.
\<close>

type_synonym uchar = nat
type_synonym pystr = "uchar list"
type_synonym byte = "8 word"
type_synonym path = pystr

text \<open>Code points the converter's source names literally.\<close>

abbreviation NL :: uchar where "NL \<equiv> 10"      \<comment> \<open>\<open>'\n'\<close>\<close>
abbreviation CR :: uchar where "CR \<equiv> 13"      \<comment> \<open>\<open>'\r'\<close>\<close>
abbreviation DOT :: uchar where "DOT \<equiv> 46"
abbreviation BOM :: uchar where "BOM \<equiv> 65279"  \<comment> \<open>U+FEFF\<close>

text \<open>
  ASCII literals of Isabelle (\<open>''abc''\<close>, with \<open>\<newline>\<close> for a line feed) are
  turned into code-point lists by \<open>ustr\<close>; this is how test inputs and the fixed
  strings of the source are written.
\<close>

definition ustr :: "string \<Rightarrow> pystr" where
  "ustr s = map of_char s"

text \<open>The bytes of an ASCII literal, as a file holding it contains them.\<close>

definition ascii_bytes :: "string \<Rightarrow> byte list" where
  "ascii_bytes s = map of_char s"

named_theorems pystr_eval "equations that evaluate the model on concrete strings"
named_theorems list_facts "generic list facts the component proofs share"

lemma ustr_Nil [pystr_eval]: "ustr [] = []"
  and ustr_Cons [pystr_eval]: "ustr (c # s) = of_char c # ustr s"
  and ustr_append [pystr_eval]: "ustr (s @ t) = ustr s @ ustr t"
  by (simp_all add: ustr_def)

lemma length_ustr [simp]: "length (ustr s) = length s"
  by (simp add: ustr_def)

lemma ustr_ascii: "c \<in> set (ustr s) \<Longrightarrow> c < 256"
  by (auto simp: ustr_def)

subsection \<open>Lists\<close>

lemma dropWhile_hd_not [list_facts]:
  "dropWhile P xs \<noteq> [] \<Longrightarrow> \<not> P (hd (dropWhile P xs))"
  by (induction xs) auto

lemma dropWhile_hd_id [list_facts]:
  "xs \<noteq> [] \<Longrightarrow> \<not> P (hd xs) \<Longrightarrow> dropWhile P xs = xs"
  by (cases xs) auto

lemma all_dropWhile_iff [list_facts]:
  "(\<forall>x\<in>set (dropWhile P xs). P x) \<longleftrightarrow> (\<forall>x\<in>set xs. P x)"
  by (induction xs) auto

lemma take_length_takeWhile [simp]: "take (length (takeWhile P xs)) xs = takeWhile P xs"
  by (induction xs) auto

lemma dropWhile_idem [list_facts]: "dropWhile P (dropWhile P xs) = dropWhile P xs"
  by (induction xs) auto

lemma list_ex_upt_Suc_iff [list_facts]:
  "list_ex P [0..<Suc n] \<longleftrightarrow> (\<exists>i\<le>n. P i)"
  by (auto simp: list_ex_iff less_Suc_eq_le simp del: upt_Suc)

lemma list_ex_upt_1_iff [list_facts]:
  "list_ex P [Suc 0..<Suc n] \<longleftrightarrow> (\<exists>i. 0 < i \<and> i \<le> n \<and> P i)"
  by (auto simp: list_ex_iff less_Suc_eq_le Suc_le_eq simp del: upt_Suc)

lemma take_append_drop_eq [list_facts]:
  "take n xs = u \<Longrightarrow> drop n xs = v \<Longrightarrow> xs = u @ v"
  by (metis append_take_drop_id)

subsection \<open>Sums, bytes and digits\<close>

text \<open>A fallible step followed by a prepend, as the decoding and encoding loops build their results.\<close>

lemma map_sum_id_Inr_iff [simp]: "map_sum id f x = Inr y \<longleftrightarrow> (\<exists>z. x = Inr z \<and> y = f z)"
  by (cases x) auto

lemma map_sum_id_Inl_iff [simp]: "map_sum id f x = Inl e \<longleftrightarrow> x = Inl e"
  by (cases x) auto

lemma unat_byte_of_nat: "k < 256 \<Longrightarrow> unat (of_nat k :: byte) = k"
  by (simp add: unat_of_nat)

lemma divmod_digit:
  assumes "(r::nat) < k" shows "(a * k + r) div k = a" "(a * k + r) mod k = r"
  using assms by simp_all

lemma find_upt_unique [list_facts]:
  assumes "\<And>n. n \<le> L \<Longrightarrow> P n \<longleftrightarrow> r = Some n"
    and "\<And>n. r = Some n \<Longrightarrow> n \<le> L"
  shows "find P [0..<Suc L] = r"
proof (cases r)
  case None
  then show ?thesis using assms(1) by (auto simp: find_None_iff less_Suc_eq_le simp del: upt_Suc)
next
  case (Some n)
  then have n: "n \<le> L" "P n" and before: "\<And>j. j < n \<Longrightarrow> \<not> P j"
    using assms by auto
  have "find P [0..<Suc L] = Some n"
    unfolding find_Some_iff using n before
    by (auto simp: nth_upt less_Suc_eq_le simp del: upt_Suc intro!: exI [of _ n])
  then show ?thesis using Some by simp
qed

end
