(* ===== verification/Utf8.thy ===== *)
theory Utf8
  imports Prelude
begin

text \<open>
  Python's \<open>'utf-8'\<close> codec with the \<open>'strict'\<close> error handler, which \<open>open(file_path,
  'r', encoding='utf-8')\<close> and \<open>open(output_file, 'w', encoding='utf-8')\<close> use
  (\<open>srt_clean.py\<close>, lines 6--7 and 41--42). The decoder follows CPython's
  \<open>utf8_decode\<close> (\<open>Objects/stringlib/codecs.h\<close>): one sequence at a time
  (\<open>dec_seq\<close>), rejecting a lead byte outside \<open>00..7F, C2..F4\<close> (invalid start byte),
  a second byte outside the range the lead byte allows (so overlong forms, surrogates
  and code points above U+10FFFF are refused), a later byte that is not a continuation
  byte, and a sequence cut off by the end of the data. A byte order mark is decoded as
  U+FEFF, since the \<open>'utf-8'\<close> codec, unlike \<open>'utf-8-sig'\<close>, does not strip it. The
  encoder refuses surrogates. An error carries the offset of the offending sequence;
  the message CPython builds from it is not modelled, since \<open>TextIOWrapper\<close> decodes
  in chunks and reports offsets within the chunk.

  The lemmas show that decoding and encoding are inverse bijections between the valid
  byte strings and the strings of Unicode scalar values: each direction of the round
  trip, the characterisation of when encoding succeeds and where it fails, and decoding
  of a concatenation.
\<close>

datatype decode_reason = Invalid_start_byte | Invalid_continuation_byte | Unexpected_end_of_data

type_synonym decode_error = "nat \<times> decode_reason"

definition is_cont :: "nat \<Rightarrow> bool" where
  "is_cont u \<longleftrightarrow> 128 \<le> u \<and> u \<le> 191"

definition second_ok :: "nat \<Rightarrow> nat \<Rightarrow> bool" where
  "second_ok c u \<longleftrightarrow>
     (if c = 224 then 160 else if c = 240 then 144 else 128) \<le> u \<and>
     u \<le> (if c = 237 then 159 else if c = 244 then 143 else 191)"

subsection \<open>The decoder\<close>

text \<open>
  One sequence starting with the byte \<open>b\<close>, followed by \<open>bs\<close>: the code point and the
  number of continuation bytes it takes, or the reason it is rejected.
\<close>

definition dec_seq :: "byte \<Rightarrow> byte list \<Rightarrow> decode_reason + uchar \<times> nat" where
  "dec_seq b bs =
     (let c = unat b in
      if c < 128 then Inr (c, 0)
      else if c < 194 then Inl Invalid_start_byte
      else if c < 224 then
        (case bs of
           [] \<Rightarrow> Inl Unexpected_end_of_data
         | b2 # _ \<Rightarrow>
             if \<not> is_cont (unat b2) then Inl Invalid_continuation_byte
             else Inr ((c - 192) * 64 + (unat b2 - 128), 1))
      else if c < 240 then
        (case bs of
           [] \<Rightarrow> Inl Unexpected_end_of_data
         | b2 # r \<Rightarrow>
             if \<not> second_ok c (unat b2) then Inl Invalid_continuation_byte
             else (case r of
               [] \<Rightarrow> Inl Unexpected_end_of_data
             | b3 # _ \<Rightarrow>
                 if \<not> is_cont (unat b3) then Inl Invalid_continuation_byte
                 else Inr ((c - 224) * 4096 + (unat b2 - 128) * 64 + (unat b3 - 128), 2)))
      else if c < 245 then
        (case bs of
           [] \<Rightarrow> Inl Unexpected_end_of_data
         | b2 # r \<Rightarrow>
             if \<not> second_ok c (unat b2) then Inl Invalid_continuation_byte
             else (case r of
               [] \<Rightarrow> Inl Unexpected_end_of_data
             | b3 # r' \<Rightarrow>
                 if \<not> is_cont (unat b3) then Inl Invalid_continuation_byte
                 else (case r' of
                   [] \<Rightarrow> Inl Unexpected_end_of_data
                 | b4 # _ \<Rightarrow>
                     if \<not> is_cont (unat b4) then Inl Invalid_continuation_byte
                     else Inr ((c - 240) * 262144 + (unat b2 - 128) * 4096 +
                               (unat b3 - 128) * 64 + (unat b4 - 128), 3))))
      else Inl Invalid_start_byte)"

text \<open>The decoding loop; \<open>i\<close> is the offset of the current byte, reported on an error.\<close>

fun utf8_dec :: "nat \<Rightarrow> byte list \<Rightarrow> decode_error + pystr" where
  "utf8_dec i [] = Inr []"
| "utf8_dec i (b # bs) =
     (case dec_seq b bs of
        Inl r \<Rightarrow> Inl (i, r)
      | Inr (c, k) \<Rightarrow> map_sum id ((#) c) (utf8_dec (i + Suc k) (drop k bs)))"

definition utf8_decode :: "byte list \<Rightarrow> decode_error + pystr" where
  "utf8_decode bs = utf8_dec 0 bs"

subsection \<open>The encoder\<close>

definition is_surrogate :: "uchar \<Rightarrow> bool" where
  "is_surrogate c \<longleftrightarrow> 55296 \<le> c \<and> c \<le> 57343"

definition enc_char :: "uchar \<Rightarrow> byte list option" where
  "enc_char c =
     (if c < 128 then Some [of_nat c]
      else if c < 2048 then Some [of_nat (192 + c div 64), of_nat (128 + c mod 64)]
      else if c < 65536 then
        (if is_surrogate c then None
         else Some [of_nat (224 + c div 4096), of_nat (128 + c div 64 mod 64), of_nat (128 + c mod 64)])
      else if c < 1114112 then
        Some [of_nat (240 + c div 262144), of_nat (128 + c div 4096 mod 64),
              of_nat (128 + c div 64 mod 64), of_nat (128 + c mod 64)]
      else None)"

fun utf8_enc :: "nat \<Rightarrow> pystr \<Rightarrow> nat + byte list" where
  "utf8_enc i [] = Inr []"
| "utf8_enc i (c # s) =
     (case enc_char c of
        None \<Rightarrow> Inl i
      | Some bs \<Rightarrow> map_sum id ((@) bs) (utf8_enc (Suc i) s))"

definition utf8_encode :: "pystr \<Rightarrow> nat + byte list" where
  "utf8_encode s = utf8_enc 0 s"

text \<open>The code points a UTF-8 byte string can hold: Unicode scalar values.\<close>

definition scalar :: "uchar \<Rightarrow> bool" where
  "scalar c \<longleftrightarrow> c < 1114112 \<and> \<not> is_surrogate c"

subsection \<open>One sequence\<close>

lemma div64_facts:
  "(c::nat) = c div 64 * 64 + c mod 64" "c mod 64 < 64"
  "c div 64 = c div 4096 * 64 + c div 64 mod 64" "c div 64 mod 64 < 64"
  "c div 4096 = c div 262144 * 64 + c div 4096 mod 64" "c div 4096 mod 64 < 64"
proof -
  show "c = c div 64 * 64 + c mod 64" by simp
  show "c mod 64 < 64" by simp
  have "c div 64 div 64 = c div 4096" by (simp add: div_mult2_eq [symmetric])
  then show "c div 64 = c div 4096 * 64 + c div 64 mod 64" by (metis div_mult_mod_eq)
  show "c div 64 mod 64 < 64" by simp
  have "c div 4096 div 64 = c div 262144" by (simp add: div_mult2_eq [symmetric])
  then show "c div 4096 = c div 262144 * 64 + c div 4096 mod 64" by (metis div_mult_mod_eq)
  show "c div 4096 mod 64 < 64" by simp
qed

lemma dec_seq_1: "c < 128 \<Longrightarrow> dec_seq (of_nat c) rest = Inr (c, 0)"
  by (simp add: dec_seq_def unat_byte_of_nat)

lemma dec_seq_2:
  assumes "2 \<le> q" "q < 32" "r < 64"
  shows "dec_seq (of_nat (192 + q)) (of_nat (128 + r) # rest) = Inr (q * 64 + r, 1)"
proof -
  have "unat (of_nat (192 + q) :: byte) = 192 + q" "unat (of_nat (128 + r) :: byte) = 128 + r"
    using assms by (simp_all add: unat_byte_of_nat del: of_nat_add)
  with assms show ?thesis by (simp add: dec_seq_def Let_def is_cont_def del: of_nat_add)
qed

lemma dec_seq_3:
  assumes "q < 16" "m < 64" "r < 64" "q = 0 \<longrightarrow> 32 \<le> m" "q = 13 \<longrightarrow> m < 32"
  shows "dec_seq (of_nat (224 + q)) (of_nat (128 + m) # of_nat (128 + r) # rest) =
           Inr (q * 4096 + m * 64 + r, 2)"
proof -
  have "unat (of_nat (224 + q) :: byte) = 224 + q" "unat (of_nat (128 + m) :: byte) = 128 + m"
       "unat (of_nat (128 + r) :: byte) = 128 + r"
    using assms by (simp_all add: unat_byte_of_nat del: of_nat_add)
  with assms show ?thesis
    by (simp add: dec_seq_def Let_def is_cont_def second_ok_def del: of_nat_add) auto
qed

lemma dec_seq_4:
  assumes "q < 5" "m1 < 64" "m2 < 64" "r < 64" "q = 0 \<longrightarrow> 16 \<le> m1" "q = 4 \<longrightarrow> m1 < 16"
  shows "dec_seq (of_nat (240 + q))
           (of_nat (128 + m1) # of_nat (128 + m2) # of_nat (128 + r) # rest) =
           Inr (q * 262144 + m1 * 4096 + m2 * 64 + r, 3)"
proof -
  have "unat (of_nat (240 + q) :: byte) = 240 + q" "unat (of_nat (128 + m1) :: byte) = 128 + m1"
       "unat (of_nat (128 + m2) :: byte) = 128 + m2" "unat (of_nat (128 + r) :: byte) = 128 + r"
    using assms by (simp_all add: unat_byte_of_nat del: of_nat_add)
  with assms show ?thesis
    by (simp add: dec_seq_def Let_def is_cont_def second_ok_def del: of_nat_add) auto
qed

lemma dec_seq_enc_char:
  assumes "enc_char c = Some (b # bs)"
  shows "dec_seq b (bs @ rest) = Inr (c, length bs)"
proof -
  note f = div64_facts [of c]
  consider "c < 128" | "128 \<le> c" "c < 2048" | "2048 \<le> c" "c < 65536" "\<not> is_surrogate c"
    | "65536 \<le> c" "c < 1114112"
    using assms by (auto simp: enc_char_def split: if_splits)
  then show ?thesis
  proof cases
    case 1
    then show ?thesis using assms dec_seq_1 [of c rest] by (auto simp: enc_char_def)
  next
    case 2
    have "2 \<le> c div 64" "c div 64 < 32" using 2 f by linarith+
    from dec_seq_2 [OF this f(2)] show ?thesis using 2 assms by (auto simp: enc_char_def simp del: of_nat_add)
  next
    case 3
    have h: "c div 4096 < 16" "c div 4096 = 0 \<longrightarrow> 32 \<le> c div 64 mod 64"
      "c div 4096 = 13 \<longrightarrow> c div 64 mod 64 < 32"
      using 3 f unfolding is_surrogate_def by linarith+
    have e: "c div 4096 * 4096 + c div 64 mod 64 * 64 + c mod 64 = c" using f by linarith
    from dec_seq_3 [OF h(1) f(4) f(2) h(2,3)] show ?thesis
      using 3 assms by (auto simp: enc_char_def e simp del: of_nat_add)
  next
    case 4
    have h: "c div 262144 < 5" "c div 262144 = 0 \<longrightarrow> 16 \<le> c div 4096 mod 64"
      "c div 262144 = 4 \<longrightarrow> c div 4096 mod 64 < 16"
      using 4 f by linarith+
    have e: "c div 262144 * 262144 + c div 4096 mod 64 * 4096 + c div 64 mod 64 * 64 + c mod 64 = c"
      using f by linarith
    from dec_seq_4 [OF h(1) f(6) f(4) f(2) h(2,3)] show ?thesis
      using 4 assms by (auto simp: enc_char_def e simp del: of_nat_add)
  qed
qed

lemma enc_char_2:
  assumes "2 \<le> q" "q < 32" "r < 64"
  shows "enc_char (q * 64 + r) = Some [of_nat (192 + q), of_nat (128 + r)]"
  using assms by (simp add: enc_char_def divmod_digit del: of_nat_add)

lemma enc_char_3:
  assumes "q < 16" "m < 64" "r < 64" "q = 0 \<longrightarrow> 32 \<le> m" "q = 13 \<longrightarrow> m < 32"
  shows "enc_char (q * 4096 + m * 64 + r) =
           Some [of_nat (224 + q), of_nat (128 + m), of_nat (128 + r)]"
proof -
  have e: "q * 4096 + m * 64 + r = (q * 64 + m) * 64 + r" by simp
  have d: "(q * 64 + m) * 64 + r = q * 4096 + (m * 64 + r)" by simp
  have "m * 64 + r < 4096" using assms by linarith
  then have "(q * 4096 + m * 64 + r) div 4096 = q" using divmod_digit(1) [of "m * 64 + r" 4096 q]
    by (simp add: add.assoc)
  moreover have "(q * 4096 + m * 64 + r) div 64 mod 64 = m" "(q * 4096 + m * 64 + r) mod 64 = r"
    using assms by (simp_all only: e divmod_digit)
  moreover have "2048 \<le> q * 4096 + m * 64 + r" "q * 4096 + m * 64 + r < 65536"
    using assms by linarith+
  moreover have "\<not> is_surrogate (q * 4096 + m * 64 + r)"
    using assms unfolding is_surrogate_def by (cases "q = 13") (simp, linarith)
  ultimately show ?thesis by (simp add: enc_char_def del: of_nat_add)
qed

lemma enc_char_4:
  assumes "q < 5" "m1 < 64" "m2 < 64" "r < 64" "q = 0 \<longrightarrow> 16 \<le> m1" "q = 4 \<longrightarrow> m1 < 16"
  shows "enc_char (q * 262144 + m1 * 4096 + m2 * 64 + r) =
           Some [of_nat (240 + q), of_nat (128 + m1), of_nat (128 + m2), of_nat (128 + r)]"
proof -
  let ?c = "q * 262144 + m1 * 4096 + m2 * 64 + r"
  have e1: "?c = ((q * 64 + m1) * 64 + m2) * 64 + r" by simp
  have "?c div 64 = (q * 64 + m1) * 64 + m2" "?c mod 64 = r"
    using assms by (simp_all only: e1 divmod_digit)
  moreover have "?c div 4096 = q * 64 + m1"
  proof -
    have "?c div 4096 = ?c div 64 div 64" by (simp add: div_mult2_eq)
    also have "\<dots> = q * 64 + m1" using assms by (simp only: e1 divmod_digit)
    finally show ?thesis .
  qed
  moreover have "?c div 262144 = q"
  proof -
    have "?c div 262144 = ?c div 4096 div 64" by (simp add: div_mult2_eq)
    then show ?thesis using \<open>?c div 4096 = q * 64 + m1\<close> assms by (simp only: divmod_digit)
  qed
  moreover have "?c div 64 mod 64 = m2" "?c div 4096 mod 64 = m1"
    using calculation assms by (simp_all only: divmod_digit)
  moreover have "65536 \<le> ?c" "?c < 1114112" using assms by linarith+
  ultimately show ?thesis using assms by (simp add: enc_char_def del: of_nat_add)
qed

lemma dec_seq_Inr:
  assumes "dec_seq b bs = Inr (c, k)"
  shows "k \<le> length bs \<and> enc_char c = Some (b # take k bs)"
proof -
  let ?u = "unat b"
  consider (a1) "?u < 128" "c = ?u" "k = 0"
    | (a2) b2 r where "bs = b2 # r" "194 \<le> ?u" "?u < 224" "is_cont (unat b2)"
        "c = (?u - 192) * 64 + (unat b2 - 128)" "k = 1"
    | (a3) b2 b3 r where "bs = b2 # b3 # r" "224 \<le> ?u" "?u < 240" "second_ok ?u (unat b2)"
        "is_cont (unat b3)" "c = (?u - 224) * 4096 + (unat b2 - 128) * 64 + (unat b3 - 128)" "k = 2"
    | (a4) b2 b3 b4 r where "bs = b2 # b3 # b4 # r" "240 \<le> ?u" "?u < 245" "second_ok ?u (unat b2)"
        "is_cont (unat b3)" "is_cont (unat b4)"
        "c = (?u - 240) * 262144 + (unat b2 - 128) * 4096 + (unat b3 - 128) * 64 + (unat b4 - 128)"
        "k = 3"
    using assms unfolding dec_seq_def Let_def
    by (auto split: if_splits list.splits)
  then show ?thesis
  proof cases
    case a1
    then show ?thesis by (simp add: enc_char_def)
  next
    case a2
    have "enc_char c = Some [of_nat (192 + (?u - 192)), of_nat (128 + (unat b2 - 128))]"
      unfolding a2(5) by (rule enc_char_2) (use a2 in \<open>auto simp: is_cont_def\<close>)
    with a2 show ?thesis by (simp add: is_cont_def del: of_nat_add)
  next
    case a3
    have "enc_char c = Some [of_nat (224 + (?u - 224)), of_nat (128 + (unat b2 - 128)),
        of_nat (128 + (unat b3 - 128))]"
      unfolding a3(6) by (rule enc_char_3) (use a3 in \<open>auto simp: is_cont_def second_ok_def split: if_splits\<close>)
    with a3 show ?thesis by (simp add: is_cont_def second_ok_def split: if_splits del: of_nat_add)
  next
    case a4
    have "enc_char c = Some [of_nat (240 + (?u - 240)), of_nat (128 + (unat b2 - 128)),
        of_nat (128 + (unat b3 - 128)), of_nat (128 + (unat b4 - 128))]"
      unfolding a4(7) by (rule enc_char_4) (use a4 in \<open>auto simp: is_cont_def second_ok_def split: if_splits\<close>)
    with a4 show ?thesis by (simp add: is_cont_def second_ok_def split: if_splits del: of_nat_add)
  qed
qed

subsection \<open>The loops\<close>

lemma enc_char_Some_iff: "(\<exists>cb. enc_char c = Some cb) \<longleftrightarrow> scalar c"
  by (auto simp: enc_char_def scalar_def is_surrogate_def)

lemma enc_char_not_Nil: "enc_char c = Some cb \<Longrightarrow> cb \<noteq> []"
  by (auto simp: enc_char_def split: if_splits)

lemma dec_seq_append: "dec_seq b bs = Inr (c, k) \<Longrightarrow> dec_seq b (bs @ ys) = Inr (c, k)"
proof -
  assume a: "dec_seq b bs = Inr (c, k)"
  then have k: "k \<le> length bs" and e: "enc_char c = Some (b # take k bs)"
    using dec_seq_Inr by blast+
  have "dec_seq b (take k bs @ drop k bs @ ys) = Inr (c, length (take k bs))"
    by (rule dec_seq_enc_char [OF e])
  moreover have "take k bs @ drop k bs @ ys = bs @ ys"
    by (simp only: append_assoc [symmetric] append_take_drop_id)
  moreover have "length (take k bs) = k" using k by simp
  ultimately show ?thesis by simp
qed

lemma utf8_enc_dec: "utf8_enc i s = Inr bs \<Longrightarrow> utf8_dec j bs = Inr s"
proof (induction s arbitrary: i j bs)
  case Nil
  then show ?case by simp
next
  case (Cons c s)
  then obtain cb bs' where cb: "enc_char c = Some cb" and r: "utf8_enc (Suc i) s = Inr bs'"
    and bs: "bs = cb @ bs'"
    by (auto split: option.splits sum.splits)
  obtain b cbs where cbs: "cb = b # cbs" using enc_char_not_Nil [OF cb] by (cases cb) auto
  have "dec_seq b (cbs @ bs') = Inr (c, length cbs)" using dec_seq_enc_char cb cbs by blast
  then show ?case using Cons.IH [OF r] bs cbs by simp
qed

lemma utf8_dec_enc: "utf8_dec i bs = Inr s \<Longrightarrow> utf8_enc j s = Inr bs"
proof (induction i bs arbitrary: s j rule: utf8_dec.induct)
  case (1 i)
  then show ?case by simp
next
  case (2 i b bs)
  then obtain c k s' where d: "dec_seq b bs = Inr (c, k)"
    and r: "utf8_dec (i + Suc k) (drop k bs) = Inr s'" and s: "s = c # s'"
    by (auto split: sum.splits prod.splits)
  have "k \<le> length bs" and e: "enc_char c = Some (b # take k bs)" using dec_seq_Inr [OF d] by blast+
  have "utf8_enc (Suc j) s' = Inr (drop k bs)" using "2.IH" [OF d refl r] .
  then show ?case using e s by simp
qed

lemma utf8_enc_scalar: "(\<exists>bs. utf8_enc i s = Inr bs) \<longleftrightarrow> list_all scalar s"
proof (induction s arbitrary: i)
  case Nil
  then show ?case by simp
next
  case (Cons c s)
  then show ?case
    using enc_char_Some_iff [of c] by (auto split: option.splits sum.splits)
qed

lemma utf8_enc_error: "utf8_enc i s = Inl j \<Longrightarrow> i \<le> j \<and> j < i + length s \<and> \<not> scalar (s ! (j - i))"
proof (induction s arbitrary: i)
  case Nil
  then show ?case by simp
next
  case (Cons c s)
  show ?case
  proof (cases "enc_char c")
    case None
    then show ?thesis using Cons.prems enc_char_Some_iff [of c] by auto
  next
    case (Some cb)
    then have r: "utf8_enc (Suc i) s = Inl j" using Cons.prems by (auto split: sum.splits)
    have h: "Suc i \<le> j \<and> j < Suc i + length s \<and> \<not> scalar (s ! (j - Suc i))"
      by (rule Cons.IH [OF r])
    then have "j - i = Suc (j - Suc i)" by arith
    with h show ?thesis by simp
  qed
qed

lemma utf8_dec_append:
  "utf8_dec i xs = Inr s \<Longrightarrow> utf8_dec i (xs @ ys) = map_sum id ((@) s) (utf8_dec (i + length xs) ys)"
proof (induction i xs arbitrary: s rule: utf8_dec.induct)
  case (1 i)
  then show ?case by (cases "utf8_dec i ys") auto
next
  case (2 i b bs)
  then obtain c k s' where d: "dec_seq b bs = Inr (c, k)"
    and r: "utf8_dec (i + Suc k) (drop k bs) = Inr s'" and s: "s = c # s'"
    by (auto split: sum.splits prod.splits)
  have k: "k \<le> length bs" using dec_seq_Inr [OF d] by blast
  have "utf8_dec (i + Suc k) (drop k bs @ ys) =
      map_sum id ((@) s') (utf8_dec (i + Suc k + length (drop k bs)) ys)"
    using "2.IH" [OF d refl r] .
  moreover have "i + Suc k + length (drop k bs) = i + length (b # bs)" using k by simp
  ultimately show ?case using dec_seq_append [OF d] s k
    by (cases "utf8_dec (i + length (b # bs)) ys") auto
qed

lemma scalar_ascii [simp]: "c < 128 \<Longrightarrow> scalar c"
  by (simp add: scalar_def is_surrogate_def)

lemma utf8_dec_ascii: "list_all (\<lambda>b. unat b < 128) bs \<Longrightarrow> utf8_dec i bs = Inr (map unat bs)"
  by (induction bs arbitrary: i) (simp_all add: dec_seq_def)

lemma utf8_dec_ascii_bytes:
  "list_all (\<lambda>c. of_char c < (128::nat)) s \<Longrightarrow> utf8_dec i (ascii_bytes s) = Inr (ustr s)"
proof -
  assume a: "list_all (\<lambda>c. of_char c < (128::nat)) s"
  have "unat (of_char c :: byte) = of_char c" if "of_char c < (128::nat)" for c
    using unat_byte_of_nat [of "of_char c"] that by (simp add: of_nat_of_char)
  then have "list_all (\<lambda>b. unat b < 128) (ascii_bytes s)" and "map unat (ascii_bytes s) = ustr s"
    using a by (auto simp: ascii_bytes_def ustr_def list_all_iff)
  then show ?thesis using utf8_dec_ascii by metis
qed

lemma utf8_decode_ascii_nat:
  "list_all (\<lambda>c. c < 128) s \<Longrightarrow> utf8_decode (map of_nat s) = Inr s"
proof -
  assume a: "list_all (\<lambda>c. c < 128) s"
  then have "list_all (\<lambda>b. unat b < 128) (map of_nat s :: byte list)" and "map unat (map of_nat s :: byte list) = s"
    by (induction s) (simp_all add: unat_byte_of_nat)
  then show ?thesis unfolding utf8_decode_def using utf8_dec_ascii by metis
qed

subsection \<open>Properties of the codec\<close>

lemma utf8_decode_bom:
  "utf8_decode (239 # 187 # 191 # bs) = map_sum id ((#) BOM) (utf8_dec 3 bs)"
proof -
  have "utf8_dec 0 [239, 187, 191] = Inr [BOM]" by (simp add: dec_seq_def is_cont_def second_ok_def)
  moreover have "((@) [BOM] :: pystr \<Rightarrow> pystr) = (#) BOM" by (rule ext) simp
  ultimately show ?thesis
    using utf8_dec_append [of 0 "[239, 187, 191]" "[BOM]" bs]
    by (simp add: utf8_decode_def numeral_3_eq_3 del: utf8_dec.simps)
qed

end
