(* ===== verification/FileIO.thy ===== *)
theory FileIO
  imports Utf8
begin

text \<open>
  The file layer \<open>srt_clean.py\<close> goes through: \<open>open(file_path, 'r',
  encoding='utf-8')\<close> with \<open>file.read()\<close> (lines 6--7) and \<open>open(output_file, 'w',
  encoding='utf-8')\<close> with \<open>out_file.write(output_text)\<close> (lines 41--42). The file system
  is an explicit state, a map from paths to entries (a regular file with its read and
  write permission and its bytes, or a directory), in the manner of the Unix model of the
  distribution. Python's exceptions are the values of \<open>py_exc\<close>.

  Reading in text mode decodes the bytes with the strict UTF-8 codec and then applies
  the universal-newline translation of \<open>io.IncrementalNewlineDecoder\<close>
  (\<open>newline=None\<close>): \<open>output.replace('\r\n', '\n')\<close>, then
  \<open>output.replace('\r', '\n')\<close>. The decoder is fed in chunks but holds back a
  trailing CR, so the translation of the whole text is the translation of its pieces.
  Writing opens the file for writing, which creates or truncates it, and then encodes
  the text; an encoding error leaves the truncated file behind. On POSIX, the translation
  of \<open>'\n'\<close> to \<open>os.linesep\<close> on writing is the identity, and the text the converter
  writes has no line feed anyway. Directory permissions and missing parent directories
  are not modelled: a path not in the map can be created.

  Once the file is open and the text encoded, the write always succeeds: an
  \<open>OSError\<close> raised by \<open>write()\<close> or by the implicit \<open>close()\<close> of the
  \<open>with\<close> block (a full disk, an exceeded quota, an I/O error), which the spec's error
  section names among the failures the driver reports, is not modelled. The only write
  failures of the model are those of opening (a directory, no write permission) and of
  encoding (a lone surrogate).
\<close>

record inode =
  readable :: bool
  writable :: bool
  data :: "byte list"

datatype fs_entry = Regular inode | Directory

type_synonym filesystem = "path \<Rightarrow> fs_entry option"

datatype py_exc =
    FileNotFoundError path
  | IsADirectoryError path
  | PermissionError path
  | UnicodeDecodeError decode_error
  | UnicodeEncodeError nat

subsection \<open>Universal newlines\<close>

fun crlf_to_lf :: "pystr \<Rightarrow> pystr" where
  "crlf_to_lf [] = []"
| "crlf_to_lf [c] = [c]"
| "crlf_to_lf (c # d # cs) = (if c = CR \<and> d = NL then NL # crlf_to_lf cs else c # crlf_to_lf (d # cs))"

definition cr_to_lf :: "pystr \<Rightarrow> pystr" where
  "cr_to_lf s = map (\<lambda>c. if c = CR then NL else c) s"

definition translate_newlines :: "pystr \<Rightarrow> pystr" where
  "translate_newlines s = cr_to_lf (crlf_to_lf s)"

subsection \<open>Reading and writing text files\<close>

definition read_text :: "filesystem \<Rightarrow> path \<Rightarrow> py_exc + pystr" where
  "read_text fs p =
     (case fs p of
        None \<Rightarrow> Inl (FileNotFoundError p)
      | Some Directory \<Rightarrow> Inl (IsADirectoryError p)
      | Some (Regular f) \<Rightarrow>
          if \<not> readable f then Inl (PermissionError p)
          else (case utf8_decode (data f) of
                  Inl e \<Rightarrow> Inl (UnicodeDecodeError e)
                | Inr s \<Rightarrow> Inr (translate_newlines s)))"

text \<open>
  Opening for writing truncates the file (or creates it, readable and writable); the
  encoder then runs on the whole text, and only its bytes reach the file.
\<close>

definition put_text :: "filesystem \<Rightarrow> path \<Rightarrow> inode \<Rightarrow> pystr \<Rightarrow> filesystem \<times> (py_exc + unit)" where
  "put_text fs p f s =
     (let f0 = f\<lparr>data := []\<rparr> in
      case utf8_encode s of
        Inl i \<Rightarrow> (fs(p \<mapsto> Regular f0), Inl (UnicodeEncodeError i))
      | Inr bs \<Rightarrow> (fs(p \<mapsto> Regular (f0\<lparr>data := bs\<rparr>)), Inr ()))"

definition new_file :: inode where
  "new_file = \<lparr>readable = True, writable = True, data = []\<rparr>"

definition write_text :: "filesystem \<Rightarrow> path \<Rightarrow> pystr \<Rightarrow> filesystem \<times> (py_exc + unit)" where
  "write_text fs p s =
     (case fs p of
        Some Directory \<Rightarrow> (fs, Inl (IsADirectoryError p))
      | Some (Regular f) \<Rightarrow> if writable f then put_text fs p f s else (fs, Inl (PermissionError p))
      | None \<Rightarrow> put_text fs p new_file s)"

text \<open>
  How a file with Windows (CR LF) or classic Mac (CR) line ends holds a text written
  with line feeds; used to state what the translation undoes.
\<close>

definition lf_to_crlf :: "pystr \<Rightarrow> pystr" where
  "lf_to_crlf s = concat (map (\<lambda>c. if c = NL then [CR, NL] else [c]) s)"

definition lf_to_cr :: "pystr \<Rightarrow> pystr" where
  "lf_to_cr s = map (\<lambda>c. if c = NL then CR else c) s"

subsection \<open>Newline translation\<close>

lemma crlf_to_lf_no_CR: "CR \<notin> set s \<Longrightarrow> crlf_to_lf s = s"
  by (induction s rule: crlf_to_lf.induct) auto

lemma set_crlf_to_lf: "set (crlf_to_lf s) \<subseteq> set s"
  by (induction s rule: crlf_to_lf.induct) auto

lemma crlf_to_lf_Cons: "c \<noteq> CR \<or> t = [] \<or> hd t \<noteq> NL \<Longrightarrow> crlf_to_lf (c # t) = c # crlf_to_lf t"
  by (cases t) auto

lemma hd_lf_to_crlf: "lf_to_crlf s = [] \<or> hd (lf_to_crlf s) \<noteq> NL"
  by (cases s) (auto simp: lf_to_crlf_def)

lemma lf_to_crlf_Cons: "lf_to_crlf (c # s) = (if c = NL then [CR, NL] else [c]) @ lf_to_crlf s"
  by (simp add: lf_to_crlf_def)

lemma crlf_to_lf_crlf: "crlf_to_lf (lf_to_crlf s) = s"
proof (induction s)
  case Nil
  then show ?case by (simp add: lf_to_crlf_def)
next
  case (Cons c s)
  then show ?case
    using crlf_to_lf_Cons [of c "lf_to_crlf s"] hd_lf_to_crlf [of s] by (simp add: lf_to_crlf_Cons)
qed

lemma cr_to_lf_id: "CR \<notin> set s \<Longrightarrow> cr_to_lf s = s"
  by (induction s) (auto simp: cr_to_lf_def)

lemma translate_newlines_no_CR_id: "CR \<notin> set s \<Longrightarrow> translate_newlines s = s"
  by (simp add: translate_newlines_def crlf_to_lf_no_CR cr_to_lf_id)

lemma crlf_to_lf_no_NL: "NL \<notin> set s \<Longrightarrow> crlf_to_lf s = s"
  by (induction s rule: crlf_to_lf.induct) auto

lemma set_cr_to_lf: "CR \<notin> set (cr_to_lf s)"
  by (auto simp: cr_to_lf_def)

text \<open>The translation undoes CR LF and CR line ends on a text without carriage returns.\<close>

lemma translate_newlines_crlf: "CR \<notin> set s \<Longrightarrow> translate_newlines (lf_to_crlf s) = s"
  by (simp add: translate_newlines_def crlf_to_lf_crlf cr_to_lf_id)

lemma translate_newlines_cr: "CR \<notin> set s \<Longrightarrow> translate_newlines (lf_to_cr s) = s"
proof -
  assume "CR \<notin> set s"
  moreover have "NL \<notin> set (lf_to_cr s)" by (auto simp: lf_to_cr_def)
  ultimately show ?thesis
    by (simp add: translate_newlines_def crlf_to_lf_no_NL cr_to_lf_def lf_to_cr_def)
      (rule map_idI, auto)
qed

lemma translate_newlines_no_CR: "CR \<notin> set (translate_newlines s)"
  by (simp add: translate_newlines_def set_cr_to_lf)

subsection \<open>Reading and writing\<close>

lemma read_text_Inr_iff:
  "read_text fs p = Inr s \<longleftrightarrow>
     (\<exists>f t. fs p = Some (Regular f) \<and> readable f \<and> utf8_decode (data f) = Inr t \<and>
            s = translate_newlines t)"
  by (auto simp: read_text_def split: option.splits fs_entry.splits sum.splits)

lemma set_translate_newlines: "set (translate_newlines s) \<subseteq> insert NL (set s)"
  using set_crlf_to_lf [of s] by (auto simp: translate_newlines_def cr_to_lf_def)

lemma put_text_other: "q \<noteq> p \<Longrightarrow> fst (put_text fs p f s) q = fs q"
  by (simp add: put_text_def Let_def split: sum.splits)

lemma write_text_other: "q \<noteq> p \<Longrightarrow> fst (write_text fs p s) q = fs q"
  by (simp add: write_text_def put_text_other split: option.splits fs_entry.splits)

lemma put_text_Inr:
  "put_text fs p f s = (fs', Inr ()) \<longleftrightarrow>
     (\<exists>bs. utf8_encode s = Inr bs \<and> fs' = fs(p \<mapsto> Regular (f\<lparr>data := bs\<rparr>)))"
  by (auto simp: put_text_def Let_def split: sum.splits)

lemma write_text_Inr:
  "write_text fs p s = (fs', Inr ()) \<longleftrightarrow>
     (\<exists>bs. utf8_encode s = Inr bs \<and>
        (case fs p of
           None \<Rightarrow> fs' = fs(p \<mapsto> Regular (new_file\<lparr>data := bs\<rparr>))
         | Some Directory \<Rightarrow> False
         | Some (Regular f) \<Rightarrow> writable f \<and> fs' = fs(p \<mapsto> Regular (f\<lparr>data := bs\<rparr>))))"
  by (auto simp: write_text_def put_text_Inr split: option.splits fs_entry.splits)

end
