(* ===== verification/Text.thy ===== *)
theory Text
  imports Prelude
begin

text \<open>
  The Python string operations the converter calls (\<open>srt_clean.py\<close>, lines 14--15
  and 24): \<open>str.strip()\<close> with CPython's whitespace predicate, \<open>str.split('\n')\<close>
  with an explicit one-character separator, and \<open>' '.join(...)\<close>. Each is written
  the way CPython computes it (\<open>do_strip\<close>, \<open>split_char\<close>, \<open>join\<close> in
  \<open>unicodeobject.c\<close>), and the lemmas give the properties the converter relies on:
  splitting at a separator splits each side, strip is idempotent and leaves no whitespace at either
  end, and no separator survives inside a piece of a split.
\<close>

subsection \<open>Whitespace\<close>

text \<open>
  \<open>Py_UNICODE_ISSPACE\<close>: the ASCII table \<open>_Py_ascii_whitespace\<close> (TAB, LF, VT, FF,
  CR, the four information separators U+001C--U+001F, SPACE) and, above ASCII,
  \<open>_PyUnicode_IsWhitespace\<close> (NEL, NO-BREAK SPACE, OGHAM SPACE MARK, U+2000--U+200A,
  LINE and PARAGRAPH SEPARATOR, NARROW NBSP, MEDIUM MATHEMATICAL SPACE,
  IDEOGRAPHIC SPACE). The byte order mark U+FEFF is not whitespace.
\<close>

definition py_isspace :: "uchar \<Rightarrow> bool" where
  "py_isspace c \<longleftrightarrow>
     (9 \<le> c \<and> c \<le> 13) \<or> (28 \<le> c \<and> c \<le> 32) \<or> c = 133 \<or> c = 160 \<or> c = 5760 \<or>
     (8192 \<le> c \<and> c \<le> 8202) \<or> c = 8232 \<or> c = 8233 \<or> c = 8239 \<or> c = 8287 \<or> c = 12288"

subsection \<open>\<open>str.strip()\<close>\<close>

text \<open>
  \<open>do_strip\<close> advances a left index over whitespace, then moves a right index back
  over whitespace, and returns the slice between them.
\<close>

definition py_lstrip :: "pystr \<Rightarrow> pystr" where
  "py_lstrip s = dropWhile py_isspace s"

definition py_rstrip :: "pystr \<Rightarrow> pystr" where
  "py_rstrip s = rev (dropWhile py_isspace (rev s))"

definition py_strip :: "pystr \<Rightarrow> pystr" where
  "py_strip s = py_rstrip (py_lstrip s)"

subsection \<open>\<open>str.split(sep)\<close> with a one-character separator\<close>

text \<open>
  The pieces between occurrences of the separator, empty pieces included: a string
  with \<open>k\<close> separators has \<open>k + 1\<close> pieces, and the empty string splits into one
  empty piece.
\<close>

fun py_split :: "uchar \<Rightarrow> pystr \<Rightarrow> pystr list" where
  "py_split sep [] = [[]]"
| "py_split sep (c # cs) =
     (if c = sep then [] # py_split sep cs
      else (case py_split sep cs of [] \<Rightarrow> [[c]] | l # ls \<Rightarrow> (c # l) # ls))"

subsection \<open>\<open>sep.join(items)\<close>\<close>

fun py_join :: "pystr \<Rightarrow> pystr list \<Rightarrow> pystr" where
  "py_join sep [] = []"
| "py_join sep [x] = x"
| "py_join sep (x # y # zs) = x @ sep @ py_join sep (y # zs)"

subsection \<open>Properties of split and join\<close>

lemma py_isspace_NL [simp]: "py_isspace NL"
  and py_isspace_CR [simp]: "py_isspace CR"
  and py_isspace_SPACE [simp]: "py_isspace 32"
  and not_py_isspace_BOM [simp]: "\<not> py_isspace BOM"
  by (simp_all add: py_isspace_def)

lemma py_split_not_Nil [simp]: "py_split sep s \<noteq> []"
  by (induction s) (auto split: list.split)

text \<open>The second equation in a form without the unreachable empty case.\<close>

lemma py_split_Cons:
  "py_split sep (c # cs) =
     (if c = sep then [] # py_split sep cs
      else (c # hd (py_split sep cs)) # tl (py_split sep cs))"
  using py_split_not_Nil [of sep cs] by (auto split: list.split)

lemma py_join_Cons:
  "py_join sep (x # xs) = (if xs = [] then x else x @ sep @ py_join sep xs)"
  by (cases xs) auto

lemma py_join_Cons_Cons [simp]: "py_join sep ((c # l) # ls) = c # py_join sep (l # ls)"
  by (cases ls) auto

lemma py_split_pieces: "l \<in> set (py_split sep s) \<Longrightarrow> sep \<notin> set l"
proof (induction s arbitrary: l)
  case Nil
  then show ?case by simp
next
  case (Cons c cs)
  let ?P = "py_split sep cs"
  have hd: "sep \<notin> set (hd ?P)" and tl: "\<And>l. l \<in> set (tl ?P) \<Longrightarrow> sep \<notin> set l"
    using Cons.IH hd_in_set [of ?P] list.set_sel(2) [of ?P] by auto
  show ?case
    using Cons.prems Cons.IH hd tl by (cases "c = sep") (auto simp: py_split_Cons simp del: py_split.simps(2))
qed

lemma set_py_join_subset:
  "set (py_join sep xs) \<subseteq> set sep \<union> \<Union> (set ` set xs)"
  by (induction sep xs rule: py_join.induct) auto

lemma py_join_Nil_iff: "py_join sep xs = [] \<longleftrightarrow> (\<forall>x\<in>set xs. x = []) \<and> (sep = [] \<or> length xs \<le> 1)"
  by (induction sep xs rule: py_join.induct) auto

lemma py_join_hd:
  "xs \<noteq> [] \<Longrightarrow> hd xs \<noteq> [] \<Longrightarrow> hd (py_join sep xs) = hd (hd xs)"
  by (cases xs) (auto simp: py_join_Cons)

lemma py_join_last:
  "xs \<noteq> [] \<Longrightarrow> last xs \<noteq> [] \<Longrightarrow> last (py_join sep xs) = last (last xs)"
proof (induction sep xs rule: py_join.induct)
  case (3 sep x y zs)
  have "last (y # zs) \<in> set (y # zs)" by (rule last_in_set) simp
  then have "py_join sep (y # zs) \<noteq> []" using "3.prems"(2) by (auto simp: py_join_Nil_iff)
  with "3.IH" "3.prems" show ?case by simp
qed simp_all

lemma py_split_pieces_subset: "l \<in> set (py_split sep s) \<Longrightarrow> set l \<subseteq> set s"
proof (induction s arbitrary: l)
  case Nil
  then show ?case by simp
next
  case (Cons c cs)
  let ?P = "py_split sep cs"
  have hd: "set (hd ?P) \<subseteq> set cs" and tl: "\<And>l. l \<in> set (tl ?P) \<Longrightarrow> set l \<subseteq> set cs"
    using Cons.IH hd_in_set [of ?P] list.set_sel(2) [of ?P] by auto
  show ?case
  proof (cases "c = sep")
    case True
    with Cons.prems Cons.IH show ?thesis by (auto simp: py_split_Cons simp del: py_split.simps(2))
  next
    case False
    with Cons.prems have "l = c # hd ?P \<or> l \<in> set (tl ?P)" by (auto simp: py_split_Cons simp del: py_split.simps(2))
    with hd tl show ?thesis by auto
  qed
qed

lemma py_split_no_sep: "sep \<notin> set a \<Longrightarrow> py_split sep a = [a]"
  by (induction a) auto

text \<open>Splitting at a separator splits each side.\<close>

lemma py_split_append_sep: "py_split sep (a @ sep # b) = py_split sep a @ py_split sep b"
proof (induction a)
  case Nil
  then show ?case by simp
next
  case (Cons c a)
  have "py_split sep a \<noteq> []" by simp
  with Cons.IH show ?case
    by (cases "py_split sep a") (simp_all add: py_split_Cons del: py_split.simps(2))
qed

subsection \<open>Properties of strip\<close>

lemma py_strip_Nil_iff: "py_strip s = [] \<longleftrightarrow> list_all py_isspace s"
proof -
  have "py_strip s = [] \<longleftrightarrow> (\<forall>x\<in>set (dropWhile py_isspace s). py_isspace x)"
    by (simp add: py_strip_def py_lstrip_def py_rstrip_def dropWhile_eq_Nil_conv)
  then show ?thesis
    by (simp only: all_dropWhile_iff list_all_iff)
qed

lemma set_py_strip: "set (py_strip s) \<subseteq> set s"
  by (auto simp: py_strip_def py_lstrip_def py_rstrip_def dest!: set_dropWhileD)

lemma py_strip_ends:
  assumes "py_strip s \<noteq> []"
  shows "\<not> py_isspace (hd (py_strip s))" and "\<not> py_isspace (last (py_strip s))"
proof -
  let ?l = "dropWhile py_isspace s"
  have ne: "dropWhile py_isspace (rev ?l) \<noteq> []"
    using assms unfolding py_strip_def py_lstrip_def py_rstrip_def by (metis rev.simps(1))
  then show "\<not> py_isspace (last (py_strip s))"
    by (simp add: py_strip_def py_lstrip_def py_rstrip_def last_rev dropWhile_hd_not)
  have "?l \<noteq> []" using ne by (metis dropWhile.simps(1) rev.simps(1))
  then have "\<not> py_isspace (hd ?l)" by (rule dropWhile_hd_not)
  moreover have "hd (py_strip s) = hd ?l"
  proof -
    have "rev (dropWhile py_isspace (rev ?l)) @ rev (takeWhile py_isspace (rev ?l)) = ?l"
      by (metis rev_append takeWhile_dropWhile_id rev_rev_ident)
    then show ?thesis using ne
      by (metis py_strip_def py_lstrip_def py_rstrip_def Nil_is_rev_conv hd_append2)
  qed
  ultimately show "\<not> py_isspace (hd (py_strip s))" by simp
qed

lemma py_strip_idem: "py_strip (py_strip s) = py_strip s"
proof (cases "py_strip s = []")
  case True
  then show ?thesis by (simp only: True) (simp add: py_strip_def py_lstrip_def py_rstrip_def)
next
  case False
  obtain c t where ct: "py_strip s = c # t"
    using False by (cases "py_strip s") auto
  have hc: "\<not> py_isspace c" using py_strip_ends(1) [OF False] ct by simp
  have "\<not> py_isspace (last (py_strip s))" by (rule py_strip_ends(2) [OF False])
  then have "\<not> py_isspace (hd (rev (c # t)))"
    using ct by (simp only: hd_rev) simp
  then have "dropWhile py_isspace (rev (c # t)) = rev (c # t)"
    by (rule dropWhile_hd_id [rotated]) simp
  with hc ct show ?thesis
    by (simp add: py_strip_def py_lstrip_def py_rstrip_def)
qed

text \<open>A non-whitespace code point in front of a stripped line stays in the stripped line.\<close>

lemma py_strip_Cons_keep:
  assumes "\<not> py_isspace c" and "py_strip l = l"
  shows "py_strip (c # l) = c # l"
proof (cases "l = []")
  case True
  with assms(1) show ?thesis by (simp add: py_strip_def py_lstrip_def py_rstrip_def)
next
  case False
  then have "\<not> py_isspace (last l)" using py_strip_ends(2) [of l] assms(2) by simp
  then have "dropWhile py_isspace (rev l @ [c]) = rev l @ [c]"
    using False by (cases "rev l") (auto simp flip: hd_rev)
  with assms(1) show ?thesis by (simp add: py_strip_def py_lstrip_def py_rstrip_def)
qed

declare py_isspace_def [pystr_eval] py_strip_def [pystr_eval] py_lstrip_def [pystr_eval]
  py_rstrip_def [pystr_eval]

end
