(* ===== verification/Regex.thy ===== *)
theory Regex
  imports Text
begin

text \<open>
  The cue-block pattern of \<open>srt_to_text\<close> (\<open>srt_clean.py\<close>, lines 10--11) and
  Python's \<open>re.sub\<close> with an empty replacement. The pattern is kept as the item list
  \<open>sre_parse\<close> produces for it: a literal is \<open>Literal c\<close>, \<open>\d\<close> is
  \<open>In_digit\<close> (category UNI_DIGIT, the Unicode decimal digits), and \<open>+\<close> and
  \<open>{n}\<close> are \<open>Max_repeat lo hi\<close> with \<open>hi = None\<close> for an unbounded repeat.
  \<open>seq_match\<close> is the language of such a pattern (a full match of a string);
  \<open>rx_match_at\<close> finds a match at the head of a string. The fast matcher
  \<open>block_len\<close> scans the digit run once and checks the fixed-width timestamp line;
  the refinement lemma shows it computes exactly \<open>rx_match_at srt_block_rx\<close>, and
  that a match at a position is unique, so Python's backtracking order cannot pick a
  different one. \<open>block_len_Some_iff\<close> reads a match line by line (a digit run, a line
  feed, a \<open>time_line\<close>, a line feed), which is how the theorems about whole files use
  it. \<open>re_sub\<close> scans left to right and deletes every match.
\<close>

subsection \<open>Unicode decimal digits (\<open>\d\<close>)\<close>

text \<open>
  The decimal digits of Unicode 15.0 (the database of CPython 3.12 and 3.13) come in
  68 runs of ten consecutive code points; \<open>nd_zeros\<close> lists the digit zero of each.
\<close>

definition nd_zeros :: "uchar list" where
  "nd_zeros =
     [0x30, 0x660, 0x6F0, 0x7C0, 0x966, 0x9E6, 0xA66, 0xAE6, 0xB66, 0xBE6, 0xC66, 0xCE6,
      0xD66, 0xDE6, 0xE50, 0xED0, 0xF20, 0x1040, 0x1090, 0x17E0, 0x1810, 0x1946, 0x19D0,
      0x1A80, 0x1A90, 0x1B50, 0x1BB0, 0x1C40, 0x1C50, 0xA620, 0xA8D0, 0xA900, 0xA9D0,
      0xA9F0, 0xAA50, 0xABF0, 0xFF10, 0x104A0, 0x10D30, 0x11066, 0x110F0, 0x11136,
      0x111D0, 0x112F0, 0x11450, 0x114D0, 0x11650, 0x116C0, 0x11730, 0x118E0, 0x11950,
      0x11C50, 0x11D50, 0x11DA0, 0x11F50, 0x16A60, 0x16AC0, 0x16B50, 0x1D7CE, 0x1D7D8,
      0x1D7E2, 0x1D7EC, 0x1D7F6, 0x1E140, 0x1E2F0, 0x1E4F0, 0x1E950, 0x1FBF0]"

definition re_digit :: "uchar \<Rightarrow> bool" where
  "re_digit c \<longleftrightarrow> list_ex (\<lambda>z. z \<le> c \<and> c < z + 10) nd_zeros"

subsection \<open>Patterns as \<open>sre_parse\<close> items\<close>

datatype rx_item =
    Literal uchar
  | In_digit
  | Max_repeat nat "nat option" rx_item

text \<open>
  \<open>item_match it w\<close>: the whole of \<open>w\<close> matches \<open>it\<close>. A repeat matches the empty
  string when no more repetitions are required or when its body matches the empty
  string; otherwise its first repetition takes a non-empty part of the string.
\<close>

fun item_match :: "rx_item \<Rightarrow> pystr \<Rightarrow> bool" where
  "item_match (Literal c) w = (w = [c])"
| "item_match In_digit w = (case w of [c] \<Rightarrow> re_digit c | _ \<Rightarrow> False)"
| "item_match (Max_repeat lo hi it) [] = (lo = 0 \<or> item_match it [])"
| "item_match (Max_repeat lo hi it) (c # cs) =
     (hi \<noteq> Some 0 \<and>
      list_ex (\<lambda>i. item_match it (take i (c # cs)) \<and>
                  item_match (Max_repeat (lo - 1) (map_option (\<lambda>h. h - 1) hi) it) (drop i (c # cs)))
        [1..<Suc (length (c # cs))])"

fun seq_match :: "rx_item list \<Rightarrow> pystr \<Rightarrow> bool" where
  "seq_match [] w = (w = [])"
| "seq_match (it # its) w =
     list_ex (\<lambda>i. item_match it (take i w) \<and> seq_match its (drop i w)) [0..<Suc (length w)]"

text \<open>A match at the head of a string: the length of the matched prefix.\<close>

definition rx_match_at :: "rx_item list \<Rightarrow> pystr \<Rightarrow> nat option" where
  "rx_match_at p s = find (\<lambda>n. seq_match p (take n s)) [0..<Suc (length s)]"

subsection \<open>The cue-block pattern\<close>

text \<open>
  \<^verbatim>\<open>\d+\n\d{2}:\d{2}:\d{2},\d{3} --> \d{2}:\d{2}:\d{2},\d{3}\n\<close>:
  the digit run, then the fixed-width remainder (line feed, timestamp range, line feed);
  \<open>srt_time_rx\<close> is the timestamp range between the two line feeds.
\<close>

definition srt_time_rx :: "rx_item list" where
  "srt_time_rx =
     [Max_repeat 2 (Some 2) In_digit, Literal 58, Max_repeat 2 (Some 2) In_digit, Literal 58,
      Max_repeat 2 (Some 2) In_digit, Literal 44, Max_repeat 3 (Some 3) In_digit,
      Literal 32, Literal 45, Literal 45, Literal 62, Literal 32,
      Max_repeat 2 (Some 2) In_digit, Literal 58, Max_repeat 2 (Some 2) In_digit, Literal 58,
      Max_repeat 2 (Some 2) In_digit, Literal 44, Max_repeat 3 (Some 3) In_digit]"

definition srt_tail_rx :: "rx_item list" where
  "srt_tail_rx = Literal NL # srt_time_rx @ [Literal NL]"

definition srt_block_rx :: "rx_item list" where
  "srt_block_rx = Max_repeat 1 None In_digit # srt_tail_rx"

text \<open>A line of the shape \<open>HH:MM:SS,mmm --> HH:MM:SS,mmm\<close> that the pattern requires.\<close>

definition time_line :: "pystr \<Rightarrow> bool" where
  "time_line t \<longleftrightarrow> seq_match srt_time_rx t"

subsection \<open>Fixed-width items\<close>

text \<open>
  The width of an item every match of which has the same length: literals and digits
  have width 1, an exact repeat \<open>{n}\<close> of an item of width \<open>k\<close> has width
  \<open>n * k\<close>.
\<close>

fun item_width :: "rx_item \<Rightarrow> nat option" where
  "item_width (Literal c) = Some 1"
| "item_width In_digit = Some 1"
| "item_width (Max_repeat lo hi it) =
     (if hi = Some lo then map_option (\<lambda>k. lo * k) (item_width it) else None)"

text \<open>
  A fixed-width item compiles to one character class per position, as the regular
  expression compiler turns literals and category sets into one opcode each.
\<close>

fun item_classes :: "rx_item \<Rightarrow> (uchar \<Rightarrow> bool) list option" where
  "item_classes (Literal c) = Some [\<lambda>x. x = c]"
| "item_classes In_digit = Some [re_digit]"
| "item_classes (Max_repeat lo hi it) =
     (if hi = Some lo then map_option (\<lambda>ps. concat (replicate lo ps)) (item_classes it) else None)"

fun seq_classes :: "rx_item list \<Rightarrow> (uchar \<Rightarrow> bool) list option" where
  "seq_classes [] = Some []"
| "seq_classes (it # its) =
     (case (item_classes it, seq_classes its) of (Some p, Some q) \<Rightarrow> Some (p @ q) | _ \<Rightarrow> None)"

definition classes_match :: "(uchar \<Rightarrow> bool) list \<Rightarrow> pystr \<Rightarrow> bool" where
  "classes_match ps w \<longleftrightarrow> list_all2 (\<lambda>p c. p c) ps w"

subsection \<open>The fast matcher\<close>

text \<open>
  The digit run is scanned once (a greedy \<open>\d+\<close> cannot give back a digit, since the
  next item is a line feed), then the code points after it are checked against the
  compiled classes of the fixed-width remainder.
\<close>

definition block_len :: "pystr \<Rightarrow> nat option" where
  "block_len s =
     (let d = length (takeWhile re_digit s) in
      if d = 0 then None
      else
        (case seq_classes srt_tail_rx of
           None \<Rightarrow> None
         | Some ps \<Rightarrow>
             let v = drop d s in
             if length ps \<le> length v \<and> classes_match ps (take (length ps) v)
             then Some (d + length ps) else None))"

subsection \<open>\<open>re.sub(pattern, '', s)\<close>\<close>

text \<open>
  The scanner tries a match at each position from the left; a non-empty match is
  deleted and the scan resumes after it, so matches never overlap; otherwise one code
  point is kept and the scan moves on. With the empty replacement an empty match
  deletes nothing, which is the case \<open>n = 0\<close>. The matcher sees the rest of the
  string from the current position, which suffices for patterns without look-behind
  or anchors.
\<close>

function re_sub :: "(pystr \<Rightarrow> nat option) \<Rightarrow> pystr \<Rightarrow> pystr" where
  "re_sub m [] = []"
| "re_sub m (c # cs) =
     (case m (c # cs) of
        Some n \<Rightarrow> if 0 < n then re_sub m (drop n (c # cs)) else c # re_sub m cs
      | None \<Rightarrow> c # re_sub m cs)"
  by pat_completeness auto
termination
  by (relation "measure (\<lambda>(m, s). length s)") auto

subsection \<open>Matching lemmas\<close>

lemma re_digit_ascii: "c < 128 \<Longrightarrow> re_digit c \<longleftrightarrow> 48 \<le> c \<and> c \<le> 57"
  by (auto simp: re_digit_def nd_zeros_def)

lemma not_re_digit_NL [simp]: "\<not> re_digit NL"
  and not_re_digit_BOM [simp]: "\<not> re_digit BOM"
  by (simp_all add: re_digit_def nd_zeros_def)

lemma item_match_In_digit_iff: "item_match In_digit w \<longleftrightarrow> (\<exists>c. w = [c] \<and> re_digit c)"
  by (auto split: list.split)

lemma item_match_width:
  "item_width it = Some k \<Longrightarrow> item_match it w \<Longrightarrow> length w = k"
proof (induction it w arbitrary: k rule: item_match.induct)
  case (1 c w)
  then show ?case by simp
next
  case (2 w)
  then show ?case by (auto split: list.splits)
next
  case (3 lo hi it)
  then show ?case by (auto split: if_splits)
next
  case (4 lo hi it c cs)
  from "4.prems"(1) obtain k' where hi: "hi = Some lo" and w: "item_width it = Some k'"
    and k: "k = lo * k'"
    by (auto split: if_splits)
  from "4.prems"(2) hi obtain i where i: "0 < i" "i \<le> length (c # cs)"
    and m1: "item_match it (take i (c # cs))"
    and m2: "item_match (Max_repeat (lo - 1) (Some (lo - 1)) it) (drop i (c # cs))"
    and lo: "lo \<noteq> 0"
    by (auto simp: list_ex_upt_1_iff simp del: upt_Suc length_Cons)
  have iset: "i \<in> set [1..<Suc (length (c # cs))]" using i by auto
  have "length (take i (c # cs)) = k'"
    using "4.IH"(1) [OF iset w] m1 by blast
  then have ik: "i = k'" using i by simp
  have "length (drop i (c # cs)) = (lo - 1) * k'"
    using "4.IH"(2) [OF iset] m1 m2 w hi by simp
  with ik i lo k show ?case
    by (cases lo) auto
qed

lemma seq_match_Cons_width:
  assumes "item_width it = Some k"
  shows "seq_match (it # its) w \<longleftrightarrow>
           k \<le> length w \<and> item_match it (take k w) \<and> seq_match its (drop k w)"
proof
  assume "seq_match (it # its) w"
  then obtain i where i: "i \<le> length w" and m: "item_match it (take i w)"
    and r: "seq_match its (drop i w)"
    by (auto simp: list_ex_upt_Suc_iff simp del: upt_Suc)
  have "length (take i w) = k" using item_match_width [OF assms m] .
  with i have "i = k" by simp
  with i m r show "k \<le> length w \<and> item_match it (take k w) \<and> seq_match its (drop k w)"
    by simp
next
  assume "k \<le> length w \<and> item_match it (take k w) \<and> seq_match its (drop k w)"
  then show "seq_match (it # its) w"
    by (auto simp: list_ex_upt_Suc_iff simp del: upt_Suc)
qed

lemma classes_match_length: "classes_match ps w \<Longrightarrow> length w = length ps"
  by (simp add: classes_match_def list_all2_lengthD)

lemma classes_match_append:
  "classes_match (p @ q) w \<longleftrightarrow> classes_match p (take (length p) w) \<and> classes_match q (drop (length p) w)"
  by (simp add: classes_match_def list_all2_append1)
     (metis append_take_drop_id list_all2_lengthD take_all_iff drop_all append_eq_conv_conj)

lemma item_classes_match:
  "item_classes it = Some ps \<Longrightarrow> item_match it w \<longleftrightarrow> classes_match ps w"
proof (induction it w arbitrary: ps rule: item_match.induct)
  case (1 c w)
  then show ?case by (auto simp: classes_match_def list_all2_Cons1)
next
  case (2 w)
  then show ?case by (auto simp: classes_match_def list_all2_Cons1 split: list.split)
next
  case (3 lo hi it)
  from "3.prems" obtain qs where "item_classes it = Some qs" "ps = concat (replicate lo qs)"
    by (auto split: if_splits)
  with "3.IH" show ?case by (auto simp: classes_match_def)
next
  case (4 lo hi it c cs)
  from "4.prems" obtain qs where hi: "hi = Some lo" and q: "item_classes it = Some qs"
    and ps: "ps = concat (replicate lo qs)"
    by (auto split: if_splits)
  let ?w = "c # cs"
  let ?r = "Max_repeat (lo - 1) (Some (lo - 1)) it"
  have r: "item_classes ?r = Some (concat (replicate (lo - 1) qs))" using q by simp
  have IH1: "item_match it (take i ?w) \<longleftrightarrow> classes_match qs (take i ?w)"
    if "i \<in> set [1..<Suc (length ?w)]" for i
    using "4.IH"(1) [OF that q] .
  have IH2: "item_match ?r (drop i ?w) \<longleftrightarrow> classes_match (concat (replicate (lo - 1) qs)) (drop i ?w)"
    if "i \<in> set [1..<Suc (length ?w)]" "item_match it (take i ?w)" for i
    using "4.IH"(2) [OF that(1)] r hi by simp
  show ?case
  proof (cases lo)
    case 0
    with hi ps show ?thesis by (simp add: classes_match_def)
  next
    case (Suc l)
    have rep: "concat (replicate lo qs) = qs @ concat (replicate l qs)" using Suc by simp
    show ?thesis
    proof
      assume "item_match (Max_repeat lo hi it) ?w"
      with hi Suc obtain i where i: "0 < i" "i \<le> length ?w"
        and m1: "item_match it (take i ?w)" and m2: "item_match ?r (drop i ?w)"
        by (auto simp: list_ex_upt_1_iff simp del: upt_Suc length_Cons)
      have iset: "i \<in> set [1..<Suc (length ?w)]" using i by auto
      have c1: "classes_match qs (take i ?w)" using IH1 [OF iset] m1 by simp
      then have "length qs = i" using i classes_match_length by fastforce
      moreover have "classes_match (concat (replicate l qs)) (drop i ?w)"
        using IH2 [OF iset m1] m2 Suc by simp
      ultimately show "classes_match ps ?w"
        using c1 ps rep by (simp add: classes_match_append)
    next
      assume "classes_match ps ?w"
      then have c1: "classes_match qs (take (length qs) ?w)"
        and c2: "classes_match (concat (replicate l qs)) (drop (length qs) ?w)"
        using ps rep by (simp_all add: classes_match_append)
      show "item_match (Max_repeat lo hi it) ?w"
      proof (cases "qs = []")
        case True
        with \<open>classes_match ps ?w\<close> ps show ?thesis by (simp add: classes_match_def)
      next
        case False
        have len: "length qs \<le> length ?w"
          using \<open>classes_match ps ?w\<close> ps rep classes_match_length by fastforce
        let ?i = "length qs"
        have iset: "?i \<in> set [1..<Suc (length ?w)]"
          using False len by (auto simp: Suc_le_eq simp del: upt_Suc length_Cons)
        have m1: "item_match it (take ?i ?w)" using IH1 [OF iset] c1 by simp
        have m2: "item_match ?r (drop ?i ?w)" using IH2 [OF iset m1] c2 Suc by simp
        have "list_ex (\<lambda>i. item_match it (take i ?w) \<and> item_match ?r (drop i ?w))
                [1..<Suc (length ?w)]"
          using iset m1 m2 by (auto simp: list_ex_iff simp del: upt_Suc length_Cons)
        with hi Suc show ?thesis by simp
      qed
    qed
  qed
qed

lemma seq_classes_match:
  "seq_classes its = Some ps \<Longrightarrow> seq_match its w \<longleftrightarrow> classes_match ps w"
proof (induction its arbitrary: ps w)
  case Nil
  then show ?case by (auto simp: classes_match_def)
next
  case (Cons it its)
  from Cons.prems obtain p q where p: "item_classes it = Some p"
    and q: "seq_classes its = Some q" and ps: "ps = p @ q"
    by (auto split: option.splits)
  have "seq_match (it # its) w \<longleftrightarrow>
          (\<exists>i\<le>length w. classes_match p (take i w) \<and> classes_match q (drop i w))"
    by (simp add: list_ex_upt_Suc_iff item_classes_match [OF p] Cons.IH [OF q] del: upt_Suc)
  also have "\<dots> \<longleftrightarrow> classes_match (p @ q) w"
  proof
    assume "\<exists>i\<le>length w. classes_match p (take i w) \<and> classes_match q (drop i w)"
    then obtain i where i: "i \<le> length w" "classes_match p (take i w)" "classes_match q (drop i w)"
      by blast
    then have "length p = i" using classes_match_length by fastforce
    with i show "classes_match (p @ q) w" by (simp add: classes_match_append)
  next
    assume a: "classes_match (p @ q) w"
    then have "length p \<le> length w" using classes_match_length by fastforce
    with a show "\<exists>i\<le>length w. classes_match p (take i w) \<and> classes_match q (drop i w)"
      by (auto simp: classes_match_append)
  qed
  finally show ?case using ps by simp
qed

text \<open>A repetition of a one-character item: the first repetition takes one code point.\<close>

lemma repeat_step_width1:
  assumes "item_width it = Some 1"
  shows "list_ex (\<lambda>i. item_match it (take i (c # cs)) \<and> P (drop i (c # cs)))
            [Suc 0..<Suc (Suc (length cs))] \<longleftrightarrow> item_match it [c] \<and> P cs"
proof
  assume "list_ex (\<lambda>i. item_match it (take i (c # cs)) \<and> P (drop i (c # cs)))
            [Suc 0..<Suc (Suc (length cs))]"
  then obtain i where i: "0 < i" "i \<le> Suc (length cs)"
    and m: "item_match it (take i (c # cs))" and p: "P (drop i (c # cs))"
    by (auto simp: list_ex_upt_1_iff simp del: upt_Suc)
  have "length (take i (c # cs)) = 1" by (rule item_match_width [OF assms m])
  with i have "i = 1" by simp
  with m p show "item_match it [c] \<and> P cs" by simp
next
  assume "item_match it [c] \<and> P cs"
  then have "0 < (1::nat) \<and> 1 \<le> Suc (length cs) \<and> item_match it (take 1 (c # cs)) \<and>
               P (drop 1 (c # cs))"
    by simp
  then show "list_ex (\<lambda>i. item_match it (take i (c # cs)) \<and> P (drop i (c # cs)))
               [Suc 0..<Suc (Suc (length cs))]"
    by (simp only: list_ex_upt_1_iff) blast
qed

lemma item_match_exact_repeat:
  assumes "item_width it = Some 1"
  shows "item_match (Max_repeat n (Some n) it) w \<longleftrightarrow>
           length w = n \<and> list_all (\<lambda>c. item_match it [c]) w"
proof (induction w arbitrary: n)
  case Nil
  have "\<not> item_match it []" using item_match_width [OF assms] by fastforce
  then show ?case by auto
next
  case (Cons c cs)
  then show ?case
    by (cases n) (auto simp: repeat_step_width1 [OF assms] simp del: upt_Suc)
qed

lemma item_match_unbounded_repeat:
  assumes "item_width it = Some 1"
  shows "item_match (Max_repeat lo None it) w \<longleftrightarrow>
           lo \<le> length w \<and> list_all (\<lambda>c. item_match it [c]) w"
proof (induction w arbitrary: lo)
  case Nil
  have "\<not> item_match it []" using item_match_width [OF assms] by fastforce
  then show ?case by auto
next
  case (Cons c cs)
  then show ?case
    by (simp add: repeat_step_width1 [OF assms] del: upt_Suc) arith
qed

subsection \<open>The cue-block pattern\<close>

lemma srt_tail_classes: "\<exists>ps. seq_classes srt_tail_rx = Some ps \<and> length ps = 31"
  by (simp add: srt_tail_rx_def srt_time_rx_def)

lemma srt_tail_length: "seq_match srt_tail_rx v \<Longrightarrow> length v = 31"
  using srt_tail_classes seq_classes_match classes_match_length by metis

text \<open>The fast matcher with the compiled classes read back as the pattern.\<close>

lemma block_len_alt:
  "block_len s =
     (let d = length (takeWhile re_digit s); v = drop d s in
      if 0 < d \<and> 31 \<le> length v \<and> seq_match srt_tail_rx (take 31 v) then Some (d + 31) else None)"
proof -
  obtain ps where ps: "seq_classes srt_tail_rx = Some ps" and l: "length ps = 31"
    using srt_tail_classes by blast
  show ?thesis
    by (simp add: block_len_def Let_def ps l seq_classes_match [OF ps])
qed

lemma srt_tail_head:
  assumes "seq_match srt_tail_rx v"
  shows "take 1 v = [NL]"
proof -
  have w: "item_width (Literal NL) = Some 1" by simp
  have e: "srt_tail_rx = Literal NL # tl srt_tail_rx" by (simp add: srt_tail_rx_def)
  from assms have "seq_match (Literal NL # tl srt_tail_rx) v" by (subst (asm) e)
  then have "1 \<le> length v \<and> item_match (Literal NL) (take 1 v)"
    by (simp only: seq_match_Cons_width [OF w])
  then show ?thesis by simp
qed

lemma item_match_plus_digit:
  "item_match (Max_repeat 1 None In_digit) w \<longleftrightarrow> w \<noteq> [] \<and> list_all re_digit w"
proof -
  have "item_match (Max_repeat 1 None In_digit) w \<longleftrightarrow>
          1 \<le> length w \<and> list_all (\<lambda>c. item_match In_digit [c]) w"
    by (rule item_match_unbounded_repeat) simp
  then show ?thesis by (simp add: Suc_le_eq)
qed

text \<open>A match of the whole pattern: a non-empty digit run, then the timestamp line.\<close>

lemma srt_block_match_exists:
  "seq_match srt_block_rx w \<longleftrightarrow>
     (\<exists>i. 0 < i \<and> i \<le> length w \<and> list_all re_digit (take i w) \<and> seq_match srt_tail_rx (drop i w))"
proof -
  have "\<And>i. i \<le> length w \<Longrightarrow> take i w \<noteq> [] \<longleftrightarrow> 0 < i"
    by auto
  then show ?thesis
    unfolding srt_block_rx_def seq_match.simps(2) list_ex_upt_Suc_iff item_match_plus_digit
    by blast
qed

text \<open>A digit run followed by a non-digit is the whole run of leading digits.\<close>

lemma digit_run_unique:
  assumes "list_all re_digit (take i w)" and "i < length w" and "\<not> re_digit (w ! i)"
  shows "i = length (takeWhile re_digit w)"
proof -
  have "takeWhile re_digit w = take i w"
  proof (rule takeWhile_eq_take_P_nth)
    fix j assume "j < i" "j < length w"
    with assms(1) show "re_digit (w ! j)" by (simp add: list_all_length)
  next
    show "\<not> re_digit (w ! i)" by (rule assms(3))
  qed
  with assms(2) show ?thesis by simp
qed

lemma tail_after_digits:
  assumes "seq_match srt_tail_rx (drop i w)" and "i \<le> length w"
  shows "i < length w" and "\<not> re_digit (w ! i)"
proof -
  from srt_tail_head [OF assms(1)] have h: "take 1 (drop i w) = [NL]" .
  then have "drop i w \<noteq> []" by auto
  then show "i < length w" by simp
  then have "w ! i = NL" using h by (simp add: hd_drop_conv_nth take_Suc)
  then show "\<not> re_digit (w ! i)" by simp
qed

text \<open>The fast matcher computes the length of the one match at the head, if any.\<close>

lemma block_len_spec:
  "block_len s = Some n \<longleftrightarrow> n \<le> length s \<and> seq_match srt_block_rx (take n s)"
proof
  assume b: "block_len s = Some n"
  let ?d = "length (takeWhile re_digit s)"
  from b have d: "0 < ?d" and l: "31 \<le> length (drop ?d s)"
    and t: "seq_match srt_tail_rx (take 31 (drop ?d s))" and n: "n = ?d + 31"
    by (auto simp: block_len_alt Let_def split: if_splits)
  have le: "n \<le> length s" using l n by simp
  have "list_all re_digit (take ?d (take n s))"
    using n by (auto simp: min_def list_all_iff dest: set_takeWhileD)
  moreover have "drop ?d (take n s) = take 31 (drop ?d s)"
    using n by (simp add: drop_take)
  ultimately have "0 < ?d \<and> ?d \<le> length (take n s) \<and> list_all re_digit (take ?d (take n s)) \<and>
      seq_match srt_tail_rx (drop ?d (take n s))"
    using d le t n by simp
  then have "seq_match srt_block_rx (take n s)"
    unfolding srt_block_match_exists by blast
  with le show "n \<le> length s \<and> seq_match srt_block_rx (take n s)" by simp
next
  assume a: "n \<le> length s \<and> seq_match srt_block_rx (take n s)"
  then obtain i where i: "0 < i" "i \<le> n" and dg: "list_all re_digit (take i (take n s))"
    and t: "seq_match srt_tail_rx (drop i (take n s))"
    by (auto simp: srt_block_match_exists)
  have ln: "length (take n s) = n" using a by simp
  have "length (drop i (take n s)) = 31" by (rule srt_tail_length [OF t])
  then have n: "n = i + 31" using ln i by simp
  have "i < length (take n s)" and nd: "\<not> re_digit (take n s ! i)"
    using tail_after_digits [OF t] i ln by simp_all
  then have "\<not> re_digit (s ! i)" and "i < length s" using a by simp_all
  moreover have "list_all re_digit (take i s)" using dg i by (simp add: min_def)
  ultimately have di: "i = length (takeWhile re_digit s)"
    using digit_run_unique by blast
  have tk: "take 31 (drop i s) = drop i (take n s)" using n by (simp add: drop_take)
  have l31: "31 \<le> length (drop i s)" using a n by auto
  from t tk have "seq_match srt_tail_rx (take 31 (drop i s))" by simp
  with l31 i n di show "block_len s = Some n"
    by (simp add: block_len_alt Let_def)
qed

lemma block_len_length:
  assumes "block_len s = Some n"
  shows "32 \<le> n \<and> n \<le> length s"
proof -
  let ?d = "length (takeWhile re_digit s)"
  from assms have "0 < ?d" "31 \<le> length (drop ?d s)" "n = ?d + 31"
    by (auto simp: block_len_alt Let_def split: if_splits)
  then show ?thesis by (simp only: length_drop) linarith
qed

text \<open>
  C4. At any position at most one prefix of the text matches the cue-block pattern, so
  the order in which Python's backtracking engine tries alternatives cannot change the
  match re.sub deletes.
\<close>

lemma srt_match_unique:
  assumes "n \<le> length s" and "m \<le> length s"
    and "seq_match srt_block_rx (take n s)" and "seq_match srt_block_rx (take m s)"
  shows "n = m"
proof -
  have "block_len s = Some n" and "block_len s = Some m"
    using assms block_len_spec by blast+
  then show ?thesis by simp
qed

text \<open>
  C2. Refinement: the fast cue-block matcher returns exactly the match that the
  regular expression of line 11 has at the head of the string (none, or its length).
\<close>

lemma block_len_refines: "block_len s = rx_match_at srt_block_rx s"
  unfolding rx_match_at_def
  by (rule find_upt_unique [symmetric]) (use block_len_spec block_len_length in blast)+

subsection \<open>The cue block, line by line\<close>

lemma seq_classes_append:
  "seq_classes (a @ b) =
     (case (seq_classes a, seq_classes b) of (Some p, Some q) \<Rightarrow> Some (p @ q) | _ \<Rightarrow> None)"
  by (induction a) (auto split: option.splits)

lemma srt_time_classes:
  "\<exists>ps. seq_classes srt_time_rx = Some ps \<and> length ps = 29 \<and> (\<forall>p\<in>set ps. \<not> p NL)"
  by (simp add: srt_time_rx_def)

lemma time_line_shape: "time_line t \<Longrightarrow> length t = 29 \<and> NL \<notin> set t"
proof -
  assume a: "time_line t"
  obtain ps where ps: "seq_classes srt_time_rx = Some ps" and l: "length ps = 29"
    and nl: "\<forall>p\<in>set ps. \<not> p NL"
    using srt_time_classes by blast
  have m: "list_all2 (\<lambda>p c. p c) ps t"
    using a seq_classes_match [OF ps] by (simp add: time_line_def classes_match_def)
  have "NL \<notin> set t"
  proof
    assume "NL \<in> set t"
    then obtain i where "i < length t" "t ! i = NL" by (auto simp: in_set_conv_nth)
    with m nl show False
      by (metis list_all2_conv_all_nth nth_mem)
  qed
  with m l show ?thesis by (simp add: list_all2_lengthD)
qed

text \<open>Evaluation of the timing-line test through its compiled classes.\<close>

lemma time_line_classes: "time_line t \<longleftrightarrow> classes_match (the (seq_classes srt_time_rx)) t"
  using srt_time_classes seq_classes_match by (fastforce simp: time_line_def)

lemma srt_tail_match_iff:
  "seq_match srt_tail_rx w \<longleftrightarrow> (\<exists>t. w = NL # t @ [NL] \<and> time_line t)"
proof -
  obtain ps where ps: "seq_classes srt_time_rx = Some ps"
    using srt_time_classes by blast
  have tl: "seq_classes srt_tail_rx = Some ([\<lambda>x. x = NL] @ ps @ [\<lambda>x. x = NL])"
    by (simp add: srt_tail_rx_def seq_classes_append ps)
  show ?thesis
    unfolding seq_classes_match [OF tl] time_line_def seq_classes_match [OF ps] classes_match_def
    by (auto simp: list_all2_Cons1 list_all2_append1 list_all2_Cons2 list_all2_lengthD)
qed

lemma NL_split_eq:
  "NL \<notin> set a \<Longrightarrow> NL \<notin> set b \<Longrightarrow> a @ NL # x = b @ NL # y \<longleftrightarrow> a = b \<and> x = y"
proof (induction a arbitrary: b)
  case Nil
  then show ?case by (cases b) auto
next
  case (Cons c a)
  then show ?case by (cases b) auto
qed

lemma takeWhile_digits_NL:
  "list_all re_digit d \<Longrightarrow> takeWhile re_digit (d @ NL # r) = d"
  by (induction d) auto

text \<open>The fast matcher succeeds exactly on a digit run, a line feed, a timestamp line and a line feed.\<close>

lemma block_len_Some_iff:
  "block_len s = Some n \<longleftrightarrow>
     (\<exists>d t r. s = d @ NL # t @ NL # r \<and> d \<noteq> [] \<and> list_all re_digit d \<and> time_line t \<and>
              n = length d + 31)"
proof
  assume b: "block_len s = Some n"
  let ?d = "takeWhile re_digit s"
  let ?v = "drop (length ?d) s"
  from b have d: "0 < length ?d" and l: "31 \<le> length ?v"
    and m: "seq_match srt_tail_rx (take 31 ?v)" and n: "n = length ?d + 31"
    by (auto simp: block_len_alt Let_def split: if_splits)
  obtain t where t: "take 31 ?v = NL # t @ [NL]" and tl: "time_line t"
    using m srt_tail_match_iff by blast
  have "s = ?d @ take 31 ?v @ drop 31 ?v"
    by (simp only: append_take_drop_id takeWhile_dropWhile_id flip: dropWhile_eq_drop)
  then have "s = ?d @ NL # t @ NL # drop 31 ?v" using t by simp
  moreover have "list_all re_digit ?d" by (auto simp: list_all_iff dest: set_takeWhileD)
  ultimately show "\<exists>d t r. s = d @ NL # t @ NL # r \<and> d \<noteq> [] \<and> list_all re_digit d \<and>
      time_line t \<and> n = length d + 31"
    using d tl n by blast
next
  assume "\<exists>d t r. s = d @ NL # t @ NL # r \<and> d \<noteq> [] \<and> list_all re_digit d \<and> time_line t \<and>
            n = length d + 31"
  then obtain d t r where s: "s = d @ NL # t @ NL # r" and d: "d \<noteq> []" "list_all re_digit d"
    and tl: "time_line t" and n: "n = length d + 31"
    by blast
  have tw: "takeWhile re_digit s = d" using s d(2) by (simp add: takeWhile_digits_NL)
  have lt: "length t = 29" using time_line_shape [OF tl] by simp
  have v: "drop (length d) s = (NL # t @ [NL]) @ r" using s by simp
  have "seq_match srt_tail_rx (NL # t @ [NL])" using tl srt_tail_match_iff by blast
  moreover have "31 \<le> length (drop (length d) s)" using v lt by simp
  ultimately show "block_len s = Some n"
    using v lt d n by (simp add: block_len_alt Let_def tw del: length_drop)
qed

text \<open>A match that starts before a line feed takes the line up to it as its digit run.\<close>

lemma block_len_line:
  assumes "block_len (a @ NL # r) = Some n" and "NL \<notin> set a"
  shows "a \<noteq> [] \<and> list_all re_digit a \<and> (\<exists>t r'. r = t @ NL # r' \<and> time_line t) \<and>
         n = length a + 31"
proof -
  obtain d t r' where s: "a @ NL # r = d @ NL # t @ NL # r'" and d: "d \<noteq> []" "list_all re_digit d"
    and tl: "time_line t" and n: "n = length d + 31"
    using assms(1) block_len_Some_iff by blast
  have "NL \<notin> set d" using d(2) by (auto simp: list_all_iff)
  then have "a = d \<and> r = t @ NL # r'" using NL_split_eq [OF assms(2)] s by blast
  with d tl n show ?thesis by blast
qed

subsection \<open>The scanner\<close>

lemma re_sub_keep [simp]: "m (c # cs) = None \<Longrightarrow> re_sub m (c # cs) = c # re_sub m cs"
  by simp

lemma re_sub_remove: "m s = Some n \<Longrightarrow> 0 < n \<Longrightarrow> re_sub m s = re_sub m (drop n s)"
  by (cases s) auto

lemma re_sub_subseq: "subseq (re_sub m s) s"
proof (induction m s rule: re_sub.induct)
  case (1 m)
  then show ?case by simp
next
  case (2 m c cs)
  have "subseq (drop n (c # cs)) (c # cs)" for n
    by (rule suffix_imp_subseq) (simp add: suffix_drop)
  with 2 show ?case
    by (auto split: option.splits intro: subseq_order.order_trans)
qed

lemma re_sub_prefix_kept:
  "(\<forall>k<length u. m (drop k (u @ v)) = None) \<Longrightarrow> re_sub m (u @ v) = u @ re_sub m v"
proof (induction u)
  case Nil
  then show ?case by simp
next
  case (Cons c u)
  from Cons.prems have "m (c # u @ v) = None" by (metis drop0 length_Cons zero_less_Suc append_Cons)
  moreover have "\<forall>k<length u. m (drop k (u @ v)) = None"
    using Cons.prems by (metis Suc_mono drop_Suc_Cons length_Cons append_Cons)
  ultimately show ?case using Cons.IH by simp
qed

lemma re_sub_no_match: "(\<forall>k<length s. m (drop k s) = None) \<Longrightarrow> re_sub m s = s"
  using re_sub_prefix_kept [of s m "[]"] by simp

declare block_len_def [pystr_eval] Let_def [pystr_eval] re_digit_ascii [pystr_eval]
  srt_tail_rx_def [pystr_eval] srt_time_rx_def [pystr_eval] classes_match_def [pystr_eval] time_line_classes [pystr_eval]
  numeral_2_eq_2 [pystr_eval] numeral_3_eq_3 [pystr_eval]

end
