(* ===== verification/Converter.thy ===== *)
theory Converter
  imports Regex
begin

text \<open>
  The text transformation of \<open>srt_to_text\<close> (\<open>srt_clean.py\<close>, lines 9--26), from
  the decoded file contents to the returned paragraph: remove every cue block with
  \<open>re.sub\<close>, split on line feeds, strip each line and drop the empty ones (the list
  comprehension), keep the first occurrence of each line (the \<open>unique_lines\<close> loop),
  and join with single spaces. The loop is modelled as written, an accumulator
  threaded through the lines; \<open>first_occurrences\<close> is the specification of what it
  computes, and the lemmas show it equal to the loop, distinct and with the same
  elements as its input. Reading the file is in \<open>FileIO\<close>.
\<close>

definition clean_content :: "pystr \<Rightarrow> pystr" where
  "clean_content content = re_sub (rx_match_at srt_block_rx) content"

definition strip_nonblank :: "pystr list \<Rightarrow> pystr list" where
  "strip_nonblank ls = [py_strip line. line \<leftarrow> ls, py_strip line \<noteq> []]"

definition stripped_lines :: "pystr \<Rightarrow> pystr list" where
  "stripped_lines cleaned = strip_nonblank (py_split NL cleaned)"

fun dedup_loop :: "pystr list \<Rightarrow> pystr list \<Rightarrow> pystr list" where
  "dedup_loop unique [] = unique"
| "dedup_loop unique (line # lines) =
     dedup_loop (if line \<notin> set unique then unique @ [line] else unique) lines"

definition unique_lines :: "pystr list \<Rightarrow> pystr list" where
  "unique_lines lines = dedup_loop [] lines"

definition convert :: "pystr \<Rightarrow> pystr" where
  "convert content = py_join [32] (unique_lines (stripped_lines (clean_content content)))"

text \<open>The specification of the loop: each element whose value has not occurred before.\<close>

definition first_occurrences :: "'a list \<Rightarrow> 'a list" where
  "first_occurrences xs = [xs ! i. i \<leftarrow> [0..<length xs], xs ! i \<notin> set (take i xs)]"

subsection \<open>The deduplication loop\<close>

lemma dedup_loop_append: "dedup_loop acc (xs @ ys) = dedup_loop (dedup_loop acc xs) ys"
  by (induction xs arbitrary: acc) auto

lemma set_dedup_loop: "set (dedup_loop acc xs) = set acc \<union> set xs"
  by (induction xs arbitrary: acc) auto

lemma unique_lines_snoc:
  "unique_lines (xs @ [x]) = (if x \<in> set xs then unique_lines xs else unique_lines xs @ [x])"
  by (simp add: unique_lines_def dedup_loop_append set_dedup_loop)

lemma first_occurrences_snoc:
  "first_occurrences (xs @ [x]) =
     (if x \<in> set xs then first_occurrences xs else first_occurrences xs @ [x])"
proof -
  have "[(xs @ [x]) ! i. i \<leftarrow> [0..<length xs], (xs @ [x]) ! i \<notin> set (take i (xs @ [x]))] =
        [xs ! i. i \<leftarrow> [0..<length xs], xs ! i \<notin> set (take i xs)]"
    by (rule arg_cong [where f = concat], rule map_cong) (auto simp: nth_append)
  then show ?thesis
    by (simp add: first_occurrences_def)
qed

text \<open>
  C3. The deduplication loop of lines 18--21 keeps exactly the elements whose value
  does not occur earlier in the list, in their original order.
\<close>

theorem unique_lines_spec: "unique_lines xs = first_occurrences xs"
proof (induction xs rule: rev_induct)
  case Nil
  then show ?case by (simp add: unique_lines_def first_occurrences_def)
next
  case (snoc x xs)
  have "set (first_occurrences xs) = set xs"
    using set_dedup_loop [of "[]" xs] snoc.IH by (simp add: unique_lines_def)
  with snoc.IH show ?case
    by (simp add: unique_lines_def dedup_loop_append first_occurrences_snoc)
qed

lemma unique_lines_rev_remdups: "unique_lines xs = rev (remdups (rev xs))"
  by (induction xs rule: rev_induct) (simp_all add: unique_lines_snoc, simp add: unique_lines_def)

lemma distinct_unique_lines: "distinct (unique_lines xs)"
  by (simp add: unique_lines_rev_remdups)

lemma set_unique_lines: "set (unique_lines xs) = set xs"
  by (simp add: unique_lines_rev_remdups)

lemma unique_lines_distinct_id: "distinct xs \<Longrightarrow> unique_lines xs = xs"
  by (simp add: unique_lines_rev_remdups distinct_remdups_id)

subsection \<open>Lines and the joined paragraph\<close>

lemma clean_content_block_len: "clean_content c = re_sub block_len c"
proof -
  have "rx_match_at srt_block_rx s = block_len s" for s
    unfolding rx_match_at_def
    by (rule find_upt_unique) (use block_len_spec block_len_length in blast)+
  then have "rx_match_at srt_block_rx = block_len" by (rule ext)
  then show ?thesis by (simp add: clean_content_def)
qed

lemma set_strip_nonblank:
  "l \<in> set (strip_nonblank ls) \<longleftrightarrow> (\<exists>line\<in>set ls. l = py_strip line \<and> l \<noteq> [])"
  by (auto simp: strip_nonblank_def)

lemma strip_nonblank_append: "strip_nonblank (xs @ ys) = strip_nonblank xs @ strip_nonblank ys"
  by (simp add: strip_nonblank_def)

lemma stripped_lines_elem:
  assumes "l \<in> set (stripped_lines c)"
  shows "l \<noteq> []" and "py_strip l = l" and "NL \<notin> set l" and "set l \<subseteq> set c"
proof -
  from assms obtain line where line: "line \<in> set (py_split NL c)" and l: "l = py_strip line"
    and ne: "l \<noteq> []"
    by (auto simp: stripped_lines_def set_strip_nonblank)
  show "l \<noteq> []" by (rule ne)
  show "py_strip l = l" using l by (simp add: py_strip_idem)
  have "NL \<notin> set line" by (rule py_split_pieces [OF line])
  then show "NL \<notin> set l" using l set_py_strip by blast
  have "set line \<subseteq> set c" by (rule py_split_pieces_subset [OF line])
  then show "set l \<subseteq> set c" using l set_py_strip by blast
qed

text \<open>
  C11. A line consisting only of whitespace is dropped by the comprehension of lines
  14--15; inserting one anywhere leaves the stripped lines unchanged, so it never
  counts as a duplicate.
\<close>

lemma strip_nonblank_blank:
  "list_all py_isspace l \<Longrightarrow> strip_nonblank (xs @ l # ys) = strip_nonblank (xs @ ys)"
  by (simp add: strip_nonblank_def py_strip_Nil_iff)

lemma convert_lines:
  "convert c = py_join [32] (unique_lines (stripped_lines (re_sub block_len c)))"
  by (simp add: convert_def clean_content_block_len)

lemma set_stripped_lines_chars: "\<Union> (set ` set (stripped_lines c)) \<subseteq> set c"
  using stripped_lines_elem(4) by blast

lemma set_re_sub: "set (re_sub m s) \<subseteq> set s"
  using re_sub_subseq [of m s] by (auto elim: list_emb_set)

text \<open>
  C6. The returned paragraph never contains a line feed.
\<close>

theorem convert_single_line: "NL \<notin> set (convert c)"
proof
  assume "NL \<in> set (convert c)"
  then have "NL \<in> set [32] \<union> \<Union> (set ` set (unique_lines (stripped_lines (clean_content c))))"
    unfolding convert_def by (rule subsetD [OF set_py_join_subset])
  then show False
    using stripped_lines_elem(3) by (auto simp: set_unique_lines)
qed

lemma set_output_lines:
  "\<Union> (set ` set (unique_lines (stripped_lines (clean_content c)))) \<subseteq> set c"
  using set_stripped_lines_chars [of "clean_content c"] set_re_sub [of _ c]
  by (auto simp: set_unique_lines clean_content_def)

lemma set_convert: "set (convert c) \<subseteq> insert 32 (set c)"
  unfolding convert_def using set_py_join_subset [of "[32]"] set_output_lines by fastforce

text \<open>
  C8. Every code point of the paragraph is a code point of the input or the joining
  space: the transformation only deletes and joins.
\<close>

theorem convert_chars: "set (convert c) \<subseteq> insert 32 (set c)"
proof -
  have "set (convert c) \<subseteq> set [32] \<union> \<Union> (set ` set (unique_lines (stripped_lines (clean_content c))))"
    unfolding convert_def by (rule set_py_join_subset)
  then show ?thesis using set_output_lines by auto
qed

text \<open>
  C7. A non-empty paragraph neither starts nor ends with whitespace.
\<close>

theorem convert_trimmed:
  assumes "convert c \<noteq> []"
  shows "\<not> py_isspace (hd (convert c)) \<and> \<not> py_isspace (last (convert c))"
proof -
  let ?u = "unique_lines (stripped_lines (clean_content c))"
  have ne: "?u \<noteq> []" using assms by (auto simp: convert_def)
  have elems: "l \<in> set ?u \<Longrightarrow> l \<noteq> [] \<and> py_strip l = l" for l
    using stripped_lines_elem(1,2) by (auto simp: set_unique_lines)
  have h: "hd ?u \<noteq> []" "py_strip (hd ?u) = hd ?u" using elems [OF hd_in_set [OF ne]] by auto
  have l: "last ?u \<noteq> []" "py_strip (last ?u) = last ?u" using elems [OF last_in_set [OF ne]] by auto
  have "\<not> py_isspace (hd (hd ?u))" using py_strip_ends(1) [of "hd ?u"] h by simp
  moreover have "\<not> py_isspace (last (last ?u))" using py_strip_ends(2) [of "last ?u"] l by simp
  ultimately show ?thesis
    using py_join_hd [OF ne h(1)] py_join_last [OF ne l(1)] by (simp add: convert_def)
qed

text \<open>
  C5. For a text with no cue block anywhere and no repeated stripped line, the output
  is all non-blank stripped lines joined by single spaces, in order.
\<close>

theorem convert_no_blocks:
  assumes "\<forall>k<length c. block_len (drop k c) = None"
    and "distinct (stripped_lines c)"
  shows "convert c = py_join [32] (stripped_lines c)"
  using assms by (simp add: convert_def clean_content_block_len re_sub_no_match unique_lines_distinct_id)

declare convert_lines [pystr_eval] stripped_lines_def [pystr_eval] strip_nonblank_def [pystr_eval]
  unique_lines_def [pystr_eval]

end
