(* ===== verification/Driver.thy ===== *)
theory Driver
  imports FileIO Converter
begin

text \<open>
  The whole program: \<open>srt_to_text(file_path)\<close> (\<open>srt_clean.py\<close>, lines 5--26) reads the
  file and runs the text transformation of \<open>Converter\<close> on it, and \<open>main()\<close> (lines
  29--47) checks the argument count, derives the output path with
  \<open>input_file.rsplit('.', 1)[0] + '_converted.txt'\<close>, writes the text and reports a
  missing file or any other exception. The state \<open>main\<close> acts on is a \<open>world\<close>: the file
  system and the lines printed to standard output; it returns the new world and the
  exit status (1 after \<open>sys.exit(1)\<close>, 0 when \<open>main\<close> returns). A printed line is
  either a text or the line \<open>An error occurred: {e}\<close> for an exception \<open>e\<close>, whose
  wording (\<open>str(e)\<close>) is CPython's and is kept as the exception value.
\<close>

definition srt_to_text :: "filesystem \<Rightarrow> path \<Rightarrow> py_exc + pystr" where
  "srt_to_text fs file_path =
     (case read_text fs file_path of
        Inl e \<Rightarrow> Inl e
      | Inr content \<Rightarrow> Inr (convert content))"

subsection \<open>The output path\<close>

text \<open>
  \<open>str.rsplit(sep, 1)\<close>: the whole string when \<open>sep\<close> does not occur, otherwise the
  parts before and after its last occurrence. \<open>l\<close> is the prefix up to and including
  the last separator.
\<close>

definition py_rsplit1 :: "uchar \<Rightarrow> pystr \<Rightarrow> pystr list" where
  "py_rsplit1 sep s =
     (let l = rev (dropWhile (\<lambda>c. c \<noteq> sep) (rev s)) in
      if l = [] then [s] else [butlast l, drop (length l) s])"

definition output_path :: "path \<Rightarrow> path" where
  "output_path input_file = hd (py_rsplit1 DOT input_file) @ ustr ''_converted.txt''"

subsection \<open>The driver\<close>

datatype out_line = Line pystr | Error_line py_exc

record world =
  files :: filesystem
  stdout :: "out_line list"

definition usage_msg :: pystr where
  "usage_msg = ustr ''Usage: python script.py <path_to_srt_file>''"

definition not_found_msg :: "path \<Rightarrow> pystr" where
  "not_found_msg input_file = ustr ''Error: The file '' @ [39] @ input_file @ [39] @ ustr '' was not found.''"

definition print_line :: "world \<Rightarrow> out_line \<Rightarrow> world" where
  "print_line w l = w\<lparr>stdout := stdout w @ [l]\<rparr>"

text \<open>The two \<open>except\<close> clauses, in their order.\<close>

definition report :: "path \<Rightarrow> py_exc \<Rightarrow> out_line" where
  "report input_file e =
     (case e of
        FileNotFoundError _ \<Rightarrow> Line (not_found_msg input_file)
      | _ \<Rightarrow> Error_line e)"

definition main :: "pystr list \<Rightarrow> world \<Rightarrow> world \<times> nat" where
  "main argv w =
     (if length argv \<noteq> 2 then (print_line w (Line usage_msg), 1)
      else
        let input_file = argv ! 1 in
        (case srt_to_text (files w) input_file of
           Inl e \<Rightarrow> (print_line w (report input_file e), 0)
         | Inr output_text \<Rightarrow>
             let output_file = output_path input_file in
             (case write_text (files w) output_file output_text of
                (fs', Inl e) \<Rightarrow> (print_line (w\<lparr>files := fs'\<rparr>) (report input_file e), 0)
              | (fs', Inr _) \<Rightarrow> (w\<lparr>files := fs'\<rparr>, 0))))"

subsection \<open>The output path\<close>

lemma rsplit_prefix:
  fixes sep :: uchar and s :: pystr
  defines "l \<equiv> rev (dropWhile (\<lambda>c. c \<noteq> sep) (rev s))"
    and "r \<equiv> rev (takeWhile (\<lambda>c. c \<noteq> sep) (rev s))"
  shows "s = l @ r" and "sep \<notin> set r" and "l \<noteq> [] \<Longrightarrow> l = butlast l @ [sep]"
    and "l = [] \<longleftrightarrow> sep \<notin> set s"
proof -
  have "rev s = takeWhile (\<lambda>c. c \<noteq> sep) (rev s) @ dropWhile (\<lambda>c. c \<noteq> sep) (rev s)" by simp
  then show "s = l @ r" unfolding l_def r_def by (metis rev_append rev_rev_ident)
  show "sep \<notin> set r" unfolding r_def by (auto dest: set_takeWhileD)
  show "l \<noteq> [] \<Longrightarrow> l = butlast l @ [sep]"
  proof -
    assume "l \<noteq> []"
    then have "dropWhile (\<lambda>c. c \<noteq> sep) (rev s) \<noteq> []" unfolding l_def by simp
    then have "hd (dropWhile (\<lambda>c. c \<noteq> sep) (rev s)) = sep" using dropWhile_hd_not by blast
    then have "last l = sep" using \<open>l \<noteq> []\<close> unfolding l_def by (simp add: last_rev)
    then show ?thesis using append_butlast_last_id [OF \<open>l \<noteq> []\<close>] by simp
  qed
  show "l = [] \<longleftrightarrow> sep \<notin> set s" unfolding l_def by (auto simp: dropWhile_eq_Nil_conv)
qed

lemma output_path_ne: "output_path p \<noteq> p"
proof
  assume eq: "output_path p = p"
  note pr = rsplit_prefix [where sep = DOT and s = p]
  let ?l = "rev (dropWhile (\<lambda>c. c \<noteq> DOT) (rev p))"
  let ?r = "rev (takeWhile (\<lambda>c. c \<noteq> DOT) (rev p))"
  show False
  proof (cases "?l = []")
    case True
    have "py_rsplit1 DOT p = [p]" by (simp only: py_rsplit1_def Let_def True if_True simp_thms)
    then have "p @ ustr ''_converted.txt'' = p" using eq by (simp add: output_path_def)
    then show False by (simp add: ustr_def)
  next
    case False
    from pr(1) have "drop (length ?l) p = drop (length ?l) (?l @ ?r)" by (rule arg_cong)
    then have d: "drop (length ?l) p = ?r" by simp
    have "py_rsplit1 DOT p = [butlast ?l, ?r]"
      by (simp only: py_rsplit1_def Let_def False d if_False)
    then have "butlast ?l @ ustr ''_converted.txt'' = p" using eq by (simp add: output_path_def)
    also have "p = (butlast ?l @ [DOT]) @ ?r" using pr(1) by (simp only: pr(3) [OF False, symmetric])
    finally have "ustr ''_converted.txt'' = DOT # ?r" by simp
    then show False by (simp add: ustr_def)
  qed
qed

lemma dropWhile_not_sep: "sep \<notin> set xs \<Longrightarrow> dropWhile (\<lambda>c. c \<noteq> sep) (xs @ ys) = dropWhile (\<lambda>c. c \<noteq> sep) ys"
  by (induction xs) auto

text \<open>
  C20. The output name replaces everything after the last dot of the whole path by
  \<open>_converted.txt\<close>, and appends it to a path without a dot; the dot may lie in a
  directory name.
\<close>

theorem output_path_ext:
  assumes "DOT \<notin> set ext"
  shows "output_path (stem @ DOT # ext) = stem @ ustr ''_converted.txt'' \<and>
         output_path ext = ext @ ustr ''_converted.txt''"
proof
  have "dropWhile (\<lambda>c. c \<noteq> DOT) (rev (stem @ DOT # ext)) = DOT # rev stem"
    using assms dropWhile_not_sep [of DOT "rev ext" "DOT # rev stem"] by simp
  then show "output_path (stem @ DOT # ext) = stem @ ustr ''_converted.txt''"
    by (simp add: output_path_def py_rsplit1_def Let_def)
  have "dropWhile (\<lambda>c. c \<noteq> DOT) (rev ext) = []"
    using assms by (auto simp: dropWhile_eq_Nil_conv)
  then show "output_path ext = ext @ ustr ''_converted.txt''"
    by (simp add: output_path_def py_rsplit1_def Let_def)
qed


subsection \<open>Reading and converting\<close>

lemma srt_to_text_Inr:
  "srt_to_text fs p = Inr output_text \<longleftrightarrow> (\<exists>content. read_text fs p = Inr content \<and> output_text = convert content)"
  by (auto simp: srt_to_text_def split: sum.splits)

lemma srt_to_text_scalar: "srt_to_text fs p = Inr output_text \<Longrightarrow> list_all scalar output_text"
proof -
  assume "srt_to_text fs p = Inr output_text"
  then obtain f :: inode and t where d: "utf8_decode (data f) = Inr t" and
    tx: "output_text = convert (translate_newlines t)"
    unfolding srt_to_text_Inr read_text_Inr_iff by blast
  have "list_all scalar t"
    using utf8_dec_enc [of 0 "data f" t 0] utf8_enc_scalar [of 0 t] d by (auto simp: utf8_decode_def)
  moreover have "set output_text \<subseteq> insert 32 (insert NL (set t))"
    using set_convert [of "translate_newlines t"] set_translate_newlines [of t] tx by auto
  ultimately show ?thesis by (auto simp: list_all_iff)
qed

subsection \<open>The driver\<close>

text \<open>
  C13. With an argument count other than one, \<open>main\<close> prints the usage line, changes no
  file and exits with status 1 (lines 30--32).
\<close>

theorem main_usage: "length argv \<noteq> 2 \<Longrightarrow> main argv w = (print_line w (Line usage_msg), 1)"
  by (simp add: main_def)

text \<open>
  C15. Any error reading or decoding the input is reported, by the first matching
  \<open>except\<close> clause, and nothing is written: the file system is unchanged and the
  process exits normally.
\<close>

theorem main_read_error:
  "length argv = 2 \<Longrightarrow> srt_to_text (files w) (argv ! 1) = Inl e \<Longrightarrow>
     main argv w = (print_line w (report (argv ! 1) e), 0)"
  by (simp add: main_def)

text \<open>
  C14. A missing input file prints the not-found message naming the path, writes no
  output file and exits with status 0 (lines 44--45).
\<close>

theorem main_not_found:
  "length argv = 2 \<Longrightarrow> files w (argv ! 1) = None \<Longrightarrow>
     main argv w = (print_line w (Line (not_found_msg (argv ! 1))), 0)"
  by (simp add: main_def srt_to_text_def read_text_def report_def)

lemma main_written:
  assumes "length argv = 2" and "srt_to_text (files w) (argv ! 1) = Inr output_text"
    and "write_text (files w) (output_path (argv ! 1)) output_text = (fs', r)"
  shows "main argv w = (case r of Inl e \<Rightarrow> (print_line (w\<lparr>files := fs'\<rparr>) (report (argv ! 1) e), 0)
                                  | Inr _ \<Rightarrow> (w\<lparr>files := fs'\<rparr>, 0))"
  using assms by (simp add: main_def split: sum.splits)

lemma main_files_other:
  assumes "q \<noteq> output_path (argv ! 1)"
  shows "files (fst (main argv w)) q = files w q"
proof (cases "length argv = 2")
  case False
  then show ?thesis by (simp add: main_def print_line_def)
next
  case True
  show ?thesis
  proof (cases "srt_to_text (files w) (argv ! 1)")
    case (Inl e)
    then show ?thesis using True by (simp add: main_def print_line_def)
  next
    case (Inr output_text)
    obtain fs' r where wr: "write_text (files w) (output_path (argv ! 1)) output_text = (fs', r)"
      by (cases "write_text (files w) (output_path (argv ! 1)) output_text")
    have "fs' q = files w q" using write_text_other [OF assms, of "files w" output_text] wr by simp
    then show ?thesis using main_written [OF True Inr wr]
      by (cases r) (simp_all add: print_line_def)
  qed
qed

text \<open>
  C12. When the input can be read and the output path is writable, \<open>main\<close> writes the
  output file, and its bytes decode to exactly the text \<open>srt_to_text\<close> returned: the
  converted text always encodes, since it holds only code points of the decoded input
  and spaces.
\<close>

theorem main_success:
  assumes "length argv = 2" and "srt_to_text (files w) (argv ! 1) = Inr output_text"
    and "case files w (output_path (argv ! 1)) of None \<Rightarrow> True | Some Directory \<Rightarrow> False
           | Some (Regular f) \<Rightarrow> writable f"
  shows "\<exists>f. main argv w = (w\<lparr>files := (files w)(output_path (argv ! 1) \<mapsto> Regular f)\<rparr>, 0) \<and>
             utf8_decode (data f) = Inr output_text"
proof -
  let ?o = "output_path (argv ! 1)"
  obtain bs where e: "utf8_encode output_text = Inr bs"
    using srt_to_text_scalar [OF assms(2)] utf8_enc_scalar [of 0 output_text] by (auto simp: utf8_encode_def)
  have d: "utf8_decode bs = Inr output_text"
    using e unfolding utf8_encode_def utf8_decode_def by (rule utf8_enc_dec)
  obtain f where w: "write_text (files w) ?o output_text = ((files w)(?o \<mapsto> Regular f), Inr ())"
      and df: "data f = bs"
    using assms(3) e
    by (cases "files w ?o") (auto simp: write_text_def put_text_def new_file_def split: fs_entry.splits)
  show ?thesis using main_written [OF assms(1,2) w] d df by auto
qed

text \<open>
  C17. \<open>main\<close> never fails: its exit status is 0 with one argument and 1 otherwise, whatever
  the file system holds.
\<close>

theorem main_exit_status: "snd (main argv w) = (if length argv = 2 then 0 else 1)"
  by (simp add: main_def Let_def split: sum.splits prod.splits)

text \<open>
  C16. The input file is never overwritten or otherwise changed, for any arguments:
  the output path always differs from the input path.
\<close>

theorem main_input_preserved: "files (fst (main argv w)) (argv ! 1) = files w (argv ! 1)"
  by (rule main_files_other) (rule not_sym [OF output_path_ne])

lemma srt_to_text_file:
  "srt_to_text (fs(p \<mapsto> Regular f)) p =
     (if \<not> readable f then Inl (PermissionError p)
      else case utf8_decode (data f) of
             Inl e \<Rightarrow> Inl (UnicodeDecodeError e)
           | Inr t \<Rightarrow> Inr (convert (translate_newlines t)))"
  by (simp add: srt_to_text_def read_text_def split: sum.splits)

text \<open>
  C18. A subtitle file with Windows line ends (CR LF) converts to the same text as the
  same file with line feeds: text-mode reading translates the line ends before the
  pattern, which expects \<open>\n\<close>, sees them.
\<close>

theorem srt_to_text_crlf:
  assumes "CR \<notin> set t" and "utf8_decode b1 = Inr t" and "utf8_decode b2 = Inr (lf_to_crlf t)"
  shows "srt_to_text (fs(p \<mapsto> Regular (f\<lparr>data := b2\<rparr>))) p = srt_to_text (fs(p \<mapsto> Regular (f\<lparr>data := b1\<rparr>))) p"
  using assms by (simp add: srt_to_text_file translate_newlines_crlf translate_newlines_no_CR_id)

text \<open>
  C19. The same holds for a file whose lines end in CR alone.
\<close>

theorem srt_to_text_cr:
  assumes "CR \<notin> set t" and "utf8_decode b1 = Inr t" and "utf8_decode b2 = Inr (lf_to_cr t)"
  shows "srt_to_text (fs(p \<mapsto> Regular (f\<lparr>data := b2\<rparr>))) p = srt_to_text (fs(p \<mapsto> Regular (f\<lparr>data := b1\<rparr>))) p"
  using assms by (simp add: srt_to_text_file translate_newlines_cr translate_newlines_no_CR_id)

end
