(* ===== verification/Cues.thy ===== *)
theory Cues
  imports Converter
begin

text \<open>
  Well-formed SubRip input, as the spec describes it, and what the converter makes of
  it. A cue is its index line, its timing line and its text lines; a file is its cues
  rendered one after another with a blank line between them. \<open>cue_ok\<close> is what the
  pattern of \<open>srt_clean.py\<close> line 11 needs to recognise exactly the cue headers: an
  index of decimal digits, a timing line \<open>HH:MM:SS,mmm --> HH:MM:SS,mmm\<close>, and text
  lines without a line feed none of which is itself a timing line. These definitions
  describe input, not code; the theorems relate them to \<open>convert\<close>.
\<close>

record cue =
  cue_index :: pystr
  cue_time :: pystr
  cue_lines :: "pystr list"

definition lines_nl :: "pystr list \<Rightarrow> pystr" where
  "lines_nl ls = concat (map (\<lambda>l. l @ [NL]) ls)"

definition render_cue :: "cue \<Rightarrow> pystr" where
  "render_cue c = cue_index c @ NL # cue_time c @ NL # lines_nl (cue_lines c)"

definition srt_file :: "cue list \<Rightarrow> pystr" where
  "srt_file cs = py_join [NL] (map render_cue cs)"

definition cue_ok :: "cue \<Rightarrow> bool" where
  "cue_ok c \<longleftrightarrow>
     cue_index c \<noteq> [] \<and> list_all re_digit (cue_index c) \<and> time_line (cue_time c) \<and>
     list_all (\<lambda>l. NL \<notin> set l \<and> \<not> time_line l) (cue_lines c)"

text \<open>The rest of the text starts with a timing line (which a digit run before it would make a cue header).\<close>

definition opens_time :: "pystr \<Rightarrow> bool" where
  "opens_time r \<longleftrightarrow> NL \<in> set r \<and> time_line (takeWhile (\<lambda>c. c \<noteq> NL) r)"

subsection \<open>Lines the scanner keeps\<close>

lemma takeWhile_line: "NL \<notin> set t \<Longrightarrow> takeWhile (\<lambda>c. c \<noteq> NL) (t @ NL # r) = t"
  by (induction t) auto

lemma opens_time_iff: "opens_time r \<longleftrightarrow> (\<exists>t r'. r = t @ NL # r' \<and> time_line t)"
proof
  assume o: "opens_time r"
  then obtain t r' where r: "r = t @ NL # r'" and t: "NL \<notin> set t"
    by (auto simp: opens_time_def dest: split_list_first)
  then have "takeWhile (\<lambda>c. c \<noteq> NL) r = t" by (simp add: takeWhile_line)
  with o r show "\<exists>t r'. r = t @ NL # r' \<and> time_line t" by (auto simp: opens_time_def)
next
  assume "\<exists>t r'. r = t @ NL # r' \<and> time_line t"
  then obtain t r' where "r = t @ NL # r'" "time_line t" by blast
  moreover have "NL \<notin> set t" using time_line_shape [OF \<open>time_line t\<close>] by simp
  ultimately show "opens_time r"
    by (simp add: opens_time_def takeWhile_line)
qed

lemma not_opens_time_Nil: "\<not> opens_time []"
  by (simp add: opens_time_def)

lemma not_opens_time_NL: "\<not> opens_time (NL # x)"
  using time_line_shape [of "[]"] by (auto simp: opens_time_def)

lemma not_opens_time_line: "NL \<notin> set l \<Longrightarrow> \<not> time_line l \<Longrightarrow> \<not> opens_time (l @ NL # x)"
  by (simp add: opens_time_def takeWhile_line)

lemma block_len_NL: "block_len (NL # s) = None"
  using block_len_line [of "[]" s] by (cases "block_len (NL # s)") auto

text \<open>A line is kept, with its line feed, unless the next line is a timing line.\<close>

lemma re_sub_line:
  assumes l: "NL \<notin> set l" and r: "\<not> opens_time r"
  shows "re_sub block_len (l @ NL # r) = l @ NL # re_sub block_len r"
proof -
  have "block_len (drop k ((l @ [NL]) @ r)) = None" if k: "k < length (l @ [NL])" for k
  proof (rule ccontr)
    assume "block_len (drop k ((l @ [NL]) @ r)) \<noteq> None"
    moreover have "drop k ((l @ [NL]) @ r) = drop k l @ NL # r" using k by simp
    ultimately obtain n where n: "block_len (drop k l @ NL # r) = Some n" by auto
    have "NL \<notin> set (drop k l)" using l by (meson in_set_dropD)
    from block_len_line [OF n this] have "opens_time r" by (simp add: opens_time_iff)
    with r show False by simp
  qed
  then have "re_sub block_len ((l @ [NL]) @ r) = (l @ [NL]) @ re_sub block_len r"
    by (intro re_sub_prefix_kept) blast
  then show ?thesis by simp
qed

text \<open>A cue header (a digit run, a line feed, a timing line, a line feed) is deleted.\<close>

lemma re_sub_block:
  assumes "d \<noteq> []" and "list_all re_digit d" and "time_line t"
  shows "re_sub block_len (d @ NL # t @ NL # r) = re_sub block_len r"
proof -
  have b: "block_len (d @ NL # t @ NL # r) = Some (length d + 31)"
    using assms block_len_Some_iff by blast
  have "length t = 29" using time_line_shape [OF assms(3)] by simp
  then have "drop (length d + 31) (d @ NL # t @ NL # r) = r" by simp
  with re_sub_remove [of block_len, OF b] show ?thesis by simp
qed

text \<open>A run of text lines is kept when no line after the first, and no line after them, is a timing line.\<close>

lemma re_sub_lines_nl:
  "list_all (\<lambda>l. NL \<notin> set l) ls \<Longrightarrow> list_all (\<lambda>l. \<not> time_line l) (tl ls) \<Longrightarrow>
   (ls \<noteq> [] \<Longrightarrow> \<not> opens_time r) \<Longrightarrow>
   re_sub block_len (lines_nl ls @ r) = lines_nl ls @ re_sub block_len r"
proof (induction ls)
  case Nil
  then show ?case by (simp add: lines_nl_def)
next
  case (Cons l ls)
  have "\<not> opens_time (lines_nl ls @ r)"
  proof (cases ls)
    case Nil
    with Cons.prems(3) show ?thesis by (simp add: lines_nl_def)
  next
    case (Cons l' ls')
    with Cons.prems(1,2) show ?thesis by (simp add: lines_nl_def not_opens_time_line)
  qed
  moreover have "re_sub block_len (lines_nl ls @ r) = lines_nl ls @ re_sub block_len r"
    using Cons.prems by (intro Cons.IH) (cases ls; simp)+
  ultimately show ?case
    using Cons.prems(1) by (simp add: lines_nl_def re_sub_line)
qed

lemma list_all_tl: "list_all P xs \<Longrightarrow> list_all P (tl xs)"
  by (cases xs) simp_all

lemma strip_nonblank_Cons:
  "strip_nonblank (x # xs) = (if py_strip x = [] then strip_nonblank xs else py_strip x # strip_nonblank xs)"
  by (simp add: strip_nonblank_def)

lemma block_len_BOM: "block_len (BOM # s) = None"
  by (simp add: block_len_def)

lemma re_sub_render:
  assumes "cue_ok c" and "\<not> opens_time r"
  shows "re_sub block_len (render_cue c @ r) = lines_nl (cue_lines c) @ re_sub block_len r"
proof -
  have "re_sub block_len (render_cue c @ r) = re_sub block_len (lines_nl (cue_lines c) @ r)"
    using assms(1) re_sub_block by (simp add: render_cue_def cue_ok_def)
  also have "\<dots> = lines_nl (cue_lines c) @ re_sub block_len r"
    using assms list_all_tl [of "\<lambda>l. \<not> time_line l" "cue_lines c"]
    by (intro re_sub_lines_nl) (auto simp: cue_ok_def list_all_iff)
  finally show ?thesis .
qed

text \<open>The scanner turns a well-formed file into its text lines, cue by cue.\<close>

lemma re_sub_srt_file:
  "list_all cue_ok cs \<Longrightarrow> re_sub block_len (srt_file cs) = py_join [NL] (map lines_nl (map cue_lines cs))"
proof (induction cs rule: induct_list012)
  case 1
  then show ?case by (simp add: srt_file_def)
next
  case (2 c)
  then show ?case using re_sub_render [of c "[]"] not_opens_time_Nil by (simp add: srt_file_def)
next
  case (3 c c' cs)
  have "srt_file (c # c' # cs) = render_cue c @ NL # srt_file (c' # cs)" by (simp add: srt_file_def)
  then have "re_sub block_len (srt_file (c # c' # cs)) =
               lines_nl (cue_lines c) @ NL # re_sub block_len (srt_file (c' # cs))"
    using "3.prems" re_sub_render [of c] not_opens_time_NL block_len_NL by simp
  with "3.IH"(2) "3.prems" show ?case by simp
qed

lemma py_split_lines_nl:
  "list_all (\<lambda>l. NL \<notin> set l) ls \<Longrightarrow> py_split NL (lines_nl ls @ r) = ls @ py_split NL r"
  by (induction ls) (simp_all add: lines_nl_def py_split_append_sep py_split_no_sep)

lemma py_split_srt_lines:
  "T \<noteq> [] \<Longrightarrow> list_all (list_all (\<lambda>l. NL \<notin> set l)) T \<Longrightarrow>
   py_split NL (py_join [NL] (map lines_nl T)) = concat (map (\<lambda>ls. ls @ [[]]) T)"
proof (induction T rule: induct_list012)
  case (2 ls)
  then show ?case using py_split_lines_nl [of ls "[]"] by simp
next
  case (3 ls ls' T)
  then show ?case using py_split_lines_nl [of ls "NL # py_join [NL] (map lines_nl (ls' # T))"] by simp
qed simp

lemma strip_nonblank_Nil_sep: "strip_nonblank (concat (map (\<lambda>ls. ls @ [[]]) T)) = strip_nonblank (concat T)"
  by (induction T) (simp_all add: strip_nonblank_append, simp add: strip_nonblank_def py_strip_Nil_iff)

lemma stripped_srt_lines:
  "list_all (list_all (\<lambda>l. NL \<notin> set l)) T \<Longrightarrow>
   strip_nonblank (py_split NL (py_join [NL] (map lines_nl T))) = strip_nonblank (concat T)"
  by (cases "T = []") (simp_all add: py_split_srt_lines strip_nonblank_Nil_sep, simp add: strip_nonblank_def py_strip_Nil_iff)

lemma cue_ok_lines: "list_all cue_ok cs \<Longrightarrow> list_all (list_all (\<lambda>l. NL \<notin> set l)) (map cue_lines cs)"
  by (auto simp: cue_ok_def list_all_iff)

text \<open>
  C1. On a well-formed SubRip file the converter returns the stripped, non-blank
  subtitle text lines of all cues, each kept at its first occurrence, joined by single
  spaces: the index and timing lines are gone and nothing else is lost.
\<close>

theorem srt_file_convert:
  assumes "list_all cue_ok cs"
  shows "convert (srt_file cs) = py_join [32] (unique_lines (strip_nonblank (concat (map cue_lines cs))))"
proof -
  have c: "clean_content (srt_file cs) = py_join [NL] (map lines_nl (map cue_lines cs))"
    using re_sub_srt_file [OF assms] by (simp add: clean_content_block_len)
  show ?thesis
    by (simp only: convert_def stripped_lines_def c stripped_srt_lines [OF cue_ok_lines [OF assms]])
qed

text \<open>
  C9. The pattern is not anchored at the start of a line: digits at the end of a text
  line directly followed by a timing line are taken as a cue index and deleted with
  it, and the text before them is kept.
\<close>

theorem clean_content_unanchored:
  assumes u: "NL \<notin> set u" "u \<noteq> []" "\<not> re_digit (last u)"
    and d: "d \<noteq> []" "list_all re_digit d" and t: "time_line ts"
  shows "clean_content (u @ d @ NL # ts @ NL # v) = u @ clean_content v"
proof -
  have "block_len (drop k (u @ d @ NL # ts @ NL # v)) = None" if k: "k < length u" for k
  proof (rule ccontr)
    assume "block_len (drop k (u @ d @ NL # ts @ NL # v)) \<noteq> None"
    then obtain n where n: "block_len ((drop k u @ d) @ NL # ts @ NL # v) = Some n"
      using k by auto
    have "NL \<notin> set d" using d(2) by (auto simp: list_all_iff)
    then have "NL \<notin> set (drop k u @ d)" using u(1) by (auto dest: in_set_dropD)
    from block_len_line [OF n this] have "list_all re_digit (drop k u)" by simp
    moreover have "last u \<in> set (drop k u)"
      using k by (metis last_drop last_in_set drop_eq_Nil not_le)
    ultimately show False using u(3) by (simp add: list_all_iff)
  qed
  then have "re_sub block_len (u @ d @ NL # ts @ NL # v) = u @ re_sub block_len (d @ NL # ts @ NL # v)"
    by (intro re_sub_prefix_kept) blast
  with re_sub_block [OF d t] show ?thesis by (simp add: clean_content_block_len)
qed

text \<open>
  C10. Text lines are kept, each with its line feed, when no line after the first and
  no text after the last line is a timing line: a cue whose timing line is malformed
  survives whole, index and timing line included.
\<close>

theorem clean_content_keeps_lines:
  "list_all (\<lambda>l. NL \<notin> set l) ls \<Longrightarrow> list_all (\<lambda>l. \<not> time_line l) (tl ls) \<Longrightarrow>
   (ls \<noteq> [] \<Longrightarrow> \<not> opens_time r) \<Longrightarrow>
   clean_content (lines_nl ls @ r) = lines_nl ls @ clean_content r"
  by (simp add: clean_content_block_len re_sub_lines_nl)

text \<open>
  C21. The file is decoded with \<open>utf-8\<close>, not \<open>utf-8-sig\<close>: a byte order mark
  stays in front of the first subtitle line (it is not whitespace, so strip keeps it),
  and that line then differs from every later copy of itself.
\<close>

theorem bom_defeats_dedup:
  assumes ok: "list_all cue_ok (c # cs)" and l: "cue_lines c = l # ls" and s: "py_strip l = l"
  shows "convert (BOM # srt_file (c # cs)) =
           py_join [32] (unique_lines ((BOM # l) # strip_nonblank (ls @ concat (map cue_lines cs))))"
proof -
  let ?T = "map cue_lines (c # cs)"
  let ?R = "concat (map (\<lambda>ls. ls @ [[]]) (map cue_lines cs))"
  have c: "clean_content (BOM # srt_file (c # cs)) = BOM # py_join [NL] (map lines_nl ?T)"
    using re_sub_srt_file [OF ok] block_len_BOM by (simp add: clean_content_block_len del: map_map)
  have "py_split NL (py_join [NL] (map lines_nl ?T)) = l # ls @ [] # ?R"
    using py_split_srt_lines [of ?T] cue_ok_lines [OF ok] l by (simp del: map_map)
  then have sp: "py_split NL (BOM # py_join [NL] (map lines_nl ?T)) = (BOM # l) # ls @ [] # ?R"
    by (simp add: py_split_Cons del: py_split.simps(2) map_map)
  have r: "strip_nonblank ?R = strip_nonblank (concat (map cue_lines cs))"
    by (rule strip_nonblank_Nil_sep)
  have "stripped_lines (clean_content (BOM # srt_file (c # cs))) =
          (BOM # l) # strip_nonblank (ls @ concat (map cue_lines cs))"
    unfolding stripped_lines_def c sp
    by (simp add: strip_nonblank_Cons py_strip_Cons_keep [OF not_py_isspace_BOM s] strip_nonblank_append
                  r py_strip_Nil_iff del: map_map)
  then show ?thesis by (simp add: convert_def)
qed

end
