(* ===== verification/Spec2Isabelle.thy ===== *)
theory Spec2Isabelle
  imports Driver Cues
begin

text \<open>
  \<^bold>\<open>A verified model of \<open>srt_clean.py\<close>.\<close>

  The program (\<open>src/scripts/.scripts/py/srt_clean.py\<close>) turns a SubRip subtitle file
  into one paragraph of text. \<open>srt_to_text(file_path)\<close> (lines 5--26) reads the file
  as UTF-8 text, deletes every cue block (an index line and a timestamp line) with one
  \<open>re.sub\<close>, splits the rest on line feeds, strips every line and drops the blank
  ones, keeps the first occurrence of each line and joins the result with single spaces.
  \<open>main()\<close> (lines 29--47) checks the argument count, calls \<open>srt_to_text\<close>, derives
  the output name with \<open>rsplit('.', 1)\<close>, writes the text as UTF-8 and reports a
  missing file and any other exception on standard output.

  \<^bold>\<open>Theories.\<close>
  \<^item> \<open>Prelude\<close>: the model's types (a Python \<open>str\<close> is a list of code points,
    \<open>pystr = nat list\<close>; bytes are \<open>8 word\<close>), ASCII literals (\<open>ustr\<close>,
    \<open>ascii_bytes\<close>), the collections \<open>pystr_eval\<close> (the equations that evaluate the
    model on concrete strings) and \<open>list_facts\<close>, and the list, sum and byte lemmas
    the components share.
  \<^item> \<open>Text\<close>: \<open>str.strip()\<close>, \<open>str.split('\n')\<close> and \<open>' '.join\<close> as CPython
    computes them, with CPython's whitespace table.
  \<^item> \<open>Regex\<close>: the pattern of line 11 as \<open>sre_parse\<close> items (\<open>srt_block_rx\<close>),
    its language (\<open>seq_match\<close>), Python's \<open>\d\<close> (the Unicode 15.0 decimal digits),
    the match at the head of a string (\<open>rx_match_at\<close>), a fast matcher
    (\<open>block_len\<close>), and \<open>re.sub(p, '', s)\<close> (\<open>re_sub\<close>).
  \<^item> \<open>Converter\<close>: lines 9--26 as a function of the decoded text (\<open>convert\<close>), with
    the deduplication loop as written (\<open>dedup_loop\<close>) against its specification
    \<open>first_occurrences\<close>.
  \<^item> \<open>Utf8\<close>: CPython's strict \<open>'utf-8'\<close> decoder (\<open>dec_seq\<close>, \<open>utf8_dec\<close>) and
    encoder (\<open>enc_char\<close>, \<open>utf8_enc\<close>) on \<open>8 word\<close> bytes.
  \<^item> \<open>FileIO\<close>: the file system as a map from paths to entries (\<open>inode\<close> records
    with permissions and bytes, or directories), Python's exceptions (\<open>py_exc\<close>),
    the universal-newline translation of text mode, \<open>read_text\<close> (lines 6--7) and
    \<open>write_text\<close> (lines 41--42).
  \<^item> \<open>Driver\<close>: \<open>srt_to_text\<close>, \<open>str.rsplit(sep, 1)\<close>, \<open>output_path\<close> and
    \<open>main\<close>, a function from the arguments and a \<open>world\<close> (file system and printed
    lines) to the new world and the exit status.
  \<^item> \<open>Cues\<close>: well-formed SubRip input as the spec describes it (a \<open>cue\<close> record
    of index, timing line and text lines; \<open>srt_file\<close> renders cues with a blank line
    between them; \<open>cue_ok\<close> is well-formedness). These describe input, not code; the
    theorems of this theory say what \<open>clean_content\<close> and \<open>convert\<close> do to it.
  \<^item> this theory: concrete inputs and the witnesses that apply each theorem with
    hypotheses to one of them (the spec's three-cue example among them).

  \<^bold>\<open>What the lemmas show.\<close> On every well-formed file the converter returns the
  stripped non-blank text lines of all cues, first occurrences only, joined by spaces
  (\<open>srt_file_convert\<close>; its witness is the spec's example, giving
  \<open>Hello world Goodbye\<close>). The fast matcher equals the regular expression
  (\<open>block_len_refines\<close>) and at most one prefix matches (\<open>srt_match_unique\<close>), so
  Python's backtracking order cannot matter. The deduplication loop keeps exactly the first
  occurrences (\<open>unique_lines_spec\<close>), and blank lines are dropped, never counted as
  duplicates (\<open>strip_nonblank_blank\<close>). On input without cue blocks the output is the
  stripped lines joined by spaces (\<open>convert_no_blocks\<close>). The paragraph never
  contains a line feed, never starts or ends with whitespace, and holds only code points
  of the input and the space. Reading translates CR LF and CR line ends, so such files
  convert like LF files. \<open>main\<close> always ends (status 0 with one argument, 1
  otherwise), never changes the input file, writes nothing when reading fails, and on
  success writes a file whose bytes decode to the converted text: the encoding of the
  output cannot fail. The UTF-8 round trips (\<open>utf8_enc_dec\<close>,
  \<open>utf8_dec_enc\<close>) and the split and strip lemmas of \<open>Text\<close> are library
  lemmas these proofs use.

  \<^bold>\<open>Findings.\<close> The pattern is not anchored at the start of a line: digits at the
  end of a text line directly followed by a timing line are deleted as a cue index
  (\<open>clean_content_unanchored\<close>). A cue whose timing line does not match (for
  instance a dot instead of the comma before the milliseconds) is kept whole, index and
  timing line included (\<open>clean_content_keeps_lines\<close>). A UTF-8 byte order mark
  survives as U+FEFF in front of the first cue's text, so that line is never a duplicate
  of a later copy (\<open>bom_defeats_dedup\<close>). The output name is cut at the last dot of
  the whole path, which may lie in a directory name (\<open>output_path_ext\<close>).

  \<^bold>\<open>Termination.\<close> Every function is total: the matcher recurses on the
  pattern and the length of the string, \<open>re_sub\<close> on the length of the rest (each
  deletion is non-empty), the decoder on the bytes (each sequence consumes at least one),
  the other loops on their lists. No fuel is needed.

  \<^bold>\<open>Not modelled.\<close> Python's \<open>re\<close> engine in general: only the one pattern the
  program uses, through its semantics. \<open>\d\<close> is the table of Unicode 15.0 (CPython
  3.12 and 3.13); later Unicode versions add digit runs, which changes the model only on
  input containing those code points. The wording of \<open>str(e)\<close> in the generic error
  line: CPython formats decode errors with offsets within the chunk the text layer
  decoded, so the line keeps the exception value. Failures of the write itself: once the
  output file is open and the text encoded, writing and closing always succeed, so a full
  disk or an I/O error during \<open>write()\<close> or \<open>close()\<close>, which the spec names among
  the reported failures, is not a branch of the model. Directory permissions and missing
  parent directories (a path absent from the map can be created), and errors raised by
  \<open>print\<close> itself. On writing, the translation of \<open>'\n'\<close> to \<open>os.linesep\<close> is
  the identity of POSIX; the written text contains no line feed in any case.
\<close>

subsection \<open>Test inputs\<close>

text \<open>A world with one readable input file, a short cue text, and a read-only file.\<close>

definition hi_world :: world where
  "hi_world = \<lparr>files = [ustr ''in.srt'' \<mapsto> Regular \<lparr>readable = True, writable = True, data = ascii_bytes ''Hi''\<rparr>],
      stdout = []\<rparr>"

definition cue_text :: pystr where
  "cue_text = ustr ''1\<newline>00:00:01,000 --> 00:00:02,000\<newline>Hi\<newline>''"

definition ro_file :: inode where
  "ro_file = \<lparr>readable = True, writable = False, data = []\<rparr>"

text \<open>The three cues of the spec's example, and two cues with the same text line.\<close>

definition spec_cues :: "cue list" where
  "spec_cues =
     [\<lparr>cue_index = ustr ''1'', cue_time = ustr ''00:00:01,000 --> 00:00:02,000'', cue_lines = [ustr ''Hello world'']\<rparr>,
      \<lparr>cue_index = ustr ''2'', cue_time = ustr ''00:00:03,000 --> 00:00:04,000'', cue_lines = [ustr ''Hello world'']\<rparr>,
      \<lparr>cue_index = ustr ''3'', cue_time = ustr ''00:00:05,500 --> 00:00:06,000'', cue_lines = [ustr ''Goodbye'']\<rparr>]"

definition bom_cues :: "cue list" where
  "bom_cues =
     [\<lparr>cue_index = ustr ''1'', cue_time = ustr ''00:00:01,000 --> 00:00:02,000'', cue_lines = [ustr ''Hi'']\<rparr>,
      \<lparr>cue_index = ustr ''2'', cue_time = ustr ''00:00:03,000 --> 00:00:04,000'', cue_lines = [ustr ''Hi'']\<rparr>]"

subsection \<open>Witnesses\<close>

lemma short_no_block: "length s < 32 \<Longrightarrow> block_len s = None"
  using block_len_length by (cases "block_len s") fastforce+

theorem srt_match_unique_witness:
  "let s = ustr ''7\<newline>00:00:01,000 --> 00:00:02,000\<newline>x'' in
     32 \<le> length s \<and> seq_match srt_block_rx (take 32 s) \<and> (32::nat) = 32"
proof -
  let ?s = "ustr ''7\<newline>00:00:01,000 --> 00:00:02,000\<newline>x''"
  have "block_len ?s = Some 32" by (simp add: pystr_eval ustr_def)
  then have h: "32 \<le> length ?s \<and> seq_match srt_block_rx (take 32 ?s)"
    using block_len_spec by blast
  then have "(32::nat) = 32"
    using Regex.srt_match_unique [of 32 ?s 32] by blast
  with h show ?thesis by simp
qed

theorem convert_no_blocks_witness:
  "convert (ustr ''Hi\<newline>Yo'') = py_join [32] (stripped_lines (ustr ''Hi\<newline>Yo''))"
proof -
  let ?c = "ustr ''Hi\<newline>Yo''"
  have "\<forall>k<length ?c. block_len (drop k ?c) = None"
    by (simp add: short_no_block)
  moreover have "distinct (stripped_lines ?c)" by (simp add: pystr_eval ustr_def)
  ultimately show ?thesis by (rule Converter.convert_no_blocks)
qed

theorem convert_trimmed_witness:
  "\<not> py_isspace (hd (convert (ustr '' Hi \<newline> Yo ''))) \<and>
   \<not> py_isspace (last (convert (ustr '' Hi \<newline> Yo '')))"
proof -
  have "convert (ustr '' Hi \<newline> Yo '') \<noteq> []" by (simp add: pystr_eval ustr_def)
  then show ?thesis by (rule Converter.convert_trimmed)
qed

theorem strip_nonblank_blank_witness:
  "strip_nonblank ([ustr ''a''] @ ustr '' \<newline>'' # [ustr ''b'']) = strip_nonblank ([ustr ''a''] @ [ustr ''b''])"
proof -
  have "list_all py_isspace (ustr '' \<newline>'')" by (simp add: pystr_eval ustr_def)
  then show ?thesis by (rule Converter.strip_nonblank_blank)
qed

theorem main_success_witness:
  "\<exists>f. main [ustr ''srt_clean.py'', ustr ''in.srt''] hi_world =
       (hi_world\<lparr>files := (files hi_world)(output_path (ustr ''in.srt'') \<mapsto> Regular f)\<rparr>, 0) \<and>
       utf8_decode (data f) = Inr (ustr ''Hi'')"
proof -
  have r: "srt_to_text (files hi_world) (ustr ''in.srt'') = Inr (ustr ''Hi'')"
    by (simp add: hi_world_def srt_to_text_def read_text_def utf8_decode_def utf8_dec_ascii_bytes
        translate_newlines_no_CR_id pystr_eval)
  have o: "files hi_world (output_path (ustr ''in.srt'')) = None"
    by (simp add: hi_world_def output_path_def py_rsplit1_def ustr_def)
  show ?thesis using Driver.main_success [of "[ustr ''srt_clean.py'', ustr ''in.srt'']" hi_world] r o
    by simp
qed

theorem main_usage_witness:
  "main [] hi_world = (print_line hi_world (Line usage_msg), 1)"
  using Driver.main_usage [of "[]" hi_world] by simp

theorem main_not_found_witness:
  "main [ustr ''srt_clean.py'', ustr ''x.srt''] hi_world =
     (print_line hi_world (Line (not_found_msg (ustr ''x.srt''))), 0)"
proof -
  have "files hi_world (ustr ''x.srt'') = None" by (simp add: hi_world_def ustr_def)
  then show ?thesis using Driver.main_not_found [of "[ustr ''srt_clean.py'', ustr ''x.srt'']" hi_world] by simp
qed

theorem main_read_error_witness:
  "main [ustr ''srt_clean.py'', ustr ''d''] \<lparr>files = [ustr ''d'' \<mapsto> Directory], stdout = []\<rparr> =
     (print_line \<lparr>files = [ustr ''d'' \<mapsto> Directory], stdout = []\<rparr>
        (report (ustr ''d'') (IsADirectoryError (ustr ''d''))), 0)"
proof -
  have "srt_to_text [ustr ''d'' \<mapsto> Directory] (ustr ''d'') = Inl (IsADirectoryError (ustr ''d''))"
    by (simp add: srt_to_text_def read_text_def)
  then show ?thesis
    using Driver.main_read_error [of "[ustr ''srt_clean.py'', ustr ''d'']"
        "\<lparr>files = [ustr ''d'' \<mapsto> Directory], stdout = []\<rparr>"] by simp
qed

theorem srt_to_text_crlf_witness:
  "srt_to_text [ustr ''a.srt'' \<mapsto> Regular (ro_file\<lparr>data := map of_nat (lf_to_crlf cue_text)\<rparr>)] (ustr ''a.srt'') =
   srt_to_text [ustr ''a.srt'' \<mapsto> Regular (ro_file\<lparr>data := map of_nat cue_text\<rparr>)] (ustr ''a.srt'')"
proof -
  have c: "CR \<notin> set cue_text" by (simp add: cue_text_def ustr_def)
  have d1: "utf8_decode (map of_nat cue_text) = Inr cue_text"
    by (rule utf8_decode_ascii_nat) (simp add: cue_text_def ustr_def)
  have d2: "utf8_decode (map of_nat (lf_to_crlf cue_text)) = Inr (lf_to_crlf cue_text)"
    by (rule utf8_decode_ascii_nat) (simp add: cue_text_def ustr_def lf_to_crlf_def)
  show ?thesis using Driver.srt_to_text_crlf [OF c d1 d2, of Map.empty "ustr ''a.srt''" ro_file] by simp
qed

theorem srt_to_text_cr_witness:
  "srt_to_text [ustr ''a.srt'' \<mapsto> Regular (ro_file\<lparr>data := map of_nat (lf_to_cr cue_text)\<rparr>)] (ustr ''a.srt'') =
   srt_to_text [ustr ''a.srt'' \<mapsto> Regular (ro_file\<lparr>data := map of_nat cue_text\<rparr>)] (ustr ''a.srt'')"
proof -
  have c: "CR \<notin> set cue_text" by (simp add: cue_text_def ustr_def)
  have d1: "utf8_decode (map of_nat cue_text) = Inr cue_text"
    by (rule utf8_decode_ascii_nat) (simp add: cue_text_def ustr_def)
  have d2: "utf8_decode (map of_nat (lf_to_cr cue_text)) = Inr (lf_to_cr cue_text)"
    by (rule utf8_decode_ascii_nat) (simp add: cue_text_def ustr_def lf_to_cr_def)
  show ?thesis using Driver.srt_to_text_cr [OF c d1 d2, of Map.empty "ustr ''a.srt''" ro_file] by simp
qed

theorem srt_file_convert_witness:
  "list_all cue_ok spec_cues \<and> convert (srt_file spec_cues) = ustr ''Hello world Goodbye''"
proof -
  have ok: "list_all cue_ok spec_cues" by (simp add: spec_cues_def cue_ok_def pystr_eval ustr_def)
  have "py_join [32] (unique_lines (strip_nonblank (concat (map cue_lines spec_cues)))) =
          ustr ''Hello world Goodbye''"
    by (simp add: spec_cues_def unique_lines_def strip_nonblank_def pystr_eval ustr_def)
  with ok Cues.srt_file_convert [OF ok] show ?thesis by simp
qed

theorem clean_content_unanchored_witness:
  "clean_content (ustr ''Room '' @ ustr ''101'' @ NL # ustr ''00:00:01,000 --> 00:00:02,000'' @ NL # ustr ''x'') =
   ustr ''Room x''"
proof -
  have "clean_content (ustr ''x'') = ustr ''x''"
    by (simp add: clean_content_block_len pystr_eval ustr_def)
  moreover have "NL \<notin> set (ustr ''Room '') \<and> ustr ''Room '' \<noteq> [] \<and> \<not> re_digit (last (ustr ''Room '')) \<and>
      ustr ''101'' \<noteq> [] \<and> list_all re_digit (ustr ''101'') \<and> time_line (ustr ''00:00:01,000 --> 00:00:02,000'')"
    by (simp add: pystr_eval ustr_def)
  ultimately show ?thesis
    using Cues.clean_content_unanchored [of "ustr ''Room ''" "ustr ''101''" "ustr ''00:00:01,000 --> 00:00:02,000''" "ustr ''x''"]
    by (simp add: ustr_def)
qed

theorem clean_content_keeps_lines_witness:
  "clean_content (lines_nl [ustr ''1'', ustr ''00:00:01.000 --> 00:00:02,000'', ustr ''Hello'']) =
   lines_nl [ustr ''1'', ustr ''00:00:01.000 --> 00:00:02,000'', ustr ''Hello'']"
proof -
  let ?ls = "[ustr ''1'', ustr ''00:00:01.000 --> 00:00:02,000'', ustr ''Hello'']"
  have "list_all (\<lambda>l. NL \<notin> set l) ?ls" and "list_all (\<lambda>l. \<not> time_line l) (tl ?ls)"
    by (simp_all add: pystr_eval ustr_def)
  moreover have "\<not> opens_time []" by (simp add: opens_time_def)
  moreover have "clean_content [] = []" by (simp add: clean_content_def)
  ultimately show ?thesis using Cues.clean_content_keeps_lines [of ?ls "[]"] by simp
qed

theorem output_path_ext_witness:
  "output_path (ustr ''movie.en.srt'') = ustr ''movie.en_converted.txt'' \<and>
   output_path (ustr ''srt'') = ustr ''srt_converted.txt''"
proof -
  have "DOT \<notin> set (ustr ''srt'')" by (simp add: ustr_def)
  from Driver.output_path_ext [OF this, of "ustr ''movie.en''"] show ?thesis by (simp add: ustr_def)
qed

theorem bom_defeats_dedup_witness:
  "convert (BOM # srt_file bom_cues) = BOM # ustr ''Hi Hi''"
proof -
  have "list_all cue_ok bom_cues" by (simp add: bom_cues_def cue_ok_def pystr_eval ustr_def)
  moreover have "py_strip (ustr ''Hi'') = ustr ''Hi''" by (simp add: pystr_eval ustr_def)
  ultimately have "convert (BOM # srt_file bom_cues) =
      py_join [32] (unique_lines ((BOM # ustr ''Hi'') # strip_nonblank ([] @ concat (map cue_lines (tl bom_cues)))))"
    using Cues.bom_defeats_dedup [of "hd bom_cues" "tl bom_cues" "ustr ''Hi''" "[]"]
    by (simp add: bom_cues_def)
  also have "\<dots> = BOM # ustr ''Hi Hi''"
    by (simp add: bom_cues_def unique_lines_def strip_nonblank_def pystr_eval ustr_def)
  finally show ?thesis .
qed

end
